theory Spec2Isabelle
  imports Complex_Main "HOL-Library.Word" "HOL-Library.While_Combinator"
begin

unbundle bit_operations_syntax

chapter \<open>Definitions\<close>

section \<open>Faults\<close>

text \<open>
  The C++ sources have no exceptions on the paths modelled here. What they do have is
  undefined behaviour on an out-of-range \<^verbatim>\<open>operator[]\<close> and \<^verbatim>\<open>assert\<close>s
  that abort a debug build, and integer division by zero. They are values of the model.
\<close>

datatype fault = OutOfRange | AssertFailed | DivByZero

section \<open>Helpers shared by the classes\<close>

text \<open>
  Modelled from the spec: \<^verbatim>\<open>ceil_div\<close> (pmath.hpp) is not among the sources; it is
  the rounded-up quotient.
\<close>

definition ceil_div :: "nat \<Rightarrow> nat \<Rightarrow> nat" where
  "ceil_div a b = (a + b - 1) div b"

text \<open>
  Modelled from the spec: \<^verbatim>\<open>popcount64\<close> (popcount.hpp) is not among the sources; it
  is the number of 1 bits of a 64-bit word.
\<close>

definition popcount64 :: "64 word \<Rightarrow> nat" where
  "popcount64 w = length (filter (bit w) [0..<64])"

section \<open>BitSieve (src/BitSieve.cpp)\<close>

text \<open>
  The class holds \<^verbatim>\<open>std::vector<uint64_t> bits_\<close> and \<^verbatim>\<open>std::size_t size_\<close>.
  Positions, \<^verbatim>\<open>start\<close> and \<^verbatim>\<open>stop\<close> are \<^verbatim>\<open>uint64_t\<close> in the source; the only
  operations on them are \<^verbatim>\<open>>> 6\<close>, \<^verbatim>\<open>& 63\<close>, \<^verbatim>\<open>63 - (stop & 63)\<close> and \<^verbatim>\<open>+ 1\<close> on a
  value below \<open>2 ^ 58\<close>, none of which can wrap, so they are \<open>nat\<close> here. The
  argument \<^verbatim>\<open>low\<close> of \<^verbatim>\<open>memset\<close> is a \<open>64 word\<close>: \<^verbatim>\<open>2 - low\<close> is computed on it.
\<close>

record BitSieve =
  bits :: "64 word list"
  sieve_size :: nat

text \<open>The table \<^verbatim>\<open>BitSieve::unset_bit_\<close>: entry \<open>i\<close> is \<^verbatim>\<open>~(1 << i)\<close>.\<close>

definition unset_bit_tab :: "64 word list" where
  "unset_bit_tab = map (\<lambda>i. NOT (push_bit i 1)) [0..<64]"

definition BitSieve_new :: "nat \<Rightarrow> BitSieve" where
  "BitSieve_new n = \<lparr>bits = replicate (ceil_div n 64) 0, sieve_size = n\<rparr>"

text \<open>
  Modelled from the spec: \<^verbatim>\<open>operator[]\<close> (the spec's \<^verbatim>\<open>test(i)\<close>) and
  \<^verbatim>\<open>unset(i)\<close> live in BitSieve.hpp, which is not among the sources. They read and
  clear bit \<open>pos & 63\<close> of word \<open>pos >> 6\<close>, the layout \<^verbatim>\<open>count_edges\<close> uses;
  \<^verbatim>\<open>unset\<close> goes through the table \<^verbatim>\<open>unset_bit_\<close> of BitSieve.cpp.
\<close>

definition test :: "BitSieve \<Rightarrow> nat \<Rightarrow> bool" where
  "test s pos = bit (bits s ! drop_bit 6 pos) (pos AND 63)"

definition unset :: "BitSieve \<Rightarrow> nat \<Rightarrow> BitSieve" where
  "unset s pos =
     s\<lparr>bits := (bits s)[drop_bit 6 pos := (bits s ! drop_bit 6 pos) AND (unset_bit_tab ! (pos AND 63))]\<rparr>"

text \<open>
  \<^verbatim>\<open>BitSieve::memset\<close>. \<^verbatim>\<open>std::fill\<close> writes the parity pattern to every word; for
  \<^verbatim>\<open>low <= 2\<close> the first word is corrected. On a sieve without words \<^verbatim>\<open>bits_[0]\<close> is
  out of range.
\<close>

definition memset :: "BitSieve \<Rightarrow> 64 word \<Rightarrow> fault + BitSieve" where
  "memset s low =
     (let filled = replicate (length (bits s))
            (if low AND 1 \<noteq> 0 then 0x5555555555555555 else 0xAAAAAAAAAAAAAAAA)
      in if low \<le> 2 then
           (case filled of
              [] \<Rightarrow> Inl OutOfRange
            | w # ws \<Rightarrow>
                (let b = push_bit (unat (2 - low)) (1 :: 64 word)
                 in Inr (s\<lparr>bits := ((w AND NOT (b - 1)) OR b) # ws\<rparr>)))
         else Inr (s\<lparr>bits := filled\<rparr>))"

text \<open>The bit at position \<open>i\<close> after \<^verbatim>\<open>memset(low)\<close>, when \<^verbatim>\<open>memset\<close> returns.\<close>

definition memset_bit :: "BitSieve \<Rightarrow> 64 word \<Rightarrow> nat \<Rightarrow> bool option" where
  "memset_bit s low i = (case memset s low of Inl e \<Rightarrow> None | Inr s' \<Rightarrow> Some (test s' i))"

definition count_edges :: "BitSieve \<Rightarrow> nat \<Rightarrow> nat \<Rightarrow> nat" where
  "count_edges s start stop =
     (let index1 = drop_bit 6 start;
          index2 = drop_bit 6 stop;
          mask1 = push_bit (start AND 63) (0xffffffffffffffff :: 64 word);
          mask2 = drop_bit (63 - (stop AND 63)) (0xffffffffffffffff :: 64 word)
      in if index1 = index2
         then popcount64 (bits s ! index1 AND (mask1 AND mask2))
         else popcount64 (bits s ! index1 AND mask1) + popcount64 (bits s ! index2 AND mask2))"

text \<open>
  \<^verbatim>\<open>BitSieve::count\<close>: the early return for an empty range comes before the
  assertion, as in the source.
\<close>

definition count :: "BitSieve \<Rightarrow> nat \<Rightarrow> nat \<Rightarrow> fault + nat" where
  "count s start stop =
     (if start > stop then Inr 0
      else if \<not> stop < sieve_size s then Inl AssertFailed
      else
        (let bit_count = count_edges s start stop;
             start_idx = drop_bit 6 start + 1;
             limit = drop_bit 6 stop
         in Inr (fold (\<lambda>i c. c + popcount64 (bits s ! i)) [start_idx..<limit] bit_count)))"

text \<open>The number of 1 bits at the positions of the inclusive range \<open>[start, stop]\<close>.\<close>

definition popcount_range :: "BitSieve \<Rightarrow> nat \<Rightarrow> nat \<Rightarrow> nat" where
  "popcount_range s start stop = length (filter (test s) [start..<Suc stop])"

section \<open>The counter tree (tos_counters.hpp, not among the sources)\<close>

text \<open>
  Modelled from the spec: \<^verbatim>\<open>cnt_finit\<close>, \<^verbatim>\<open>cnt_update\<close> and \<^verbatim>\<open>cnt_query\<close>
  (tos_counters.hpp) are not among the sources. The spec's counter tree divides the
  segment into equal blocks of width \<open>w\<close> and holds the number of 1 bits of each
  block. \<^verbatim>\<open>init\<close> rebuilds the block counts from the sieve by a full popcount pass;
  the update on \<^verbatim>\<open>unset(i)\<close> decrements the counter of the block that contains \<open>i\<close>;
  the query \<^verbatim>\<open>rank(i)\<close> sums the counters of all full blocks before the containing
  block and adds the popcount of the bits of that block up to position \<open>i\<close>. The
  width (the spec's \<open>w\<close>, about the square root of the segment size) is a field of
  the structure, and the query reads the sieve, as the spec's words have it.
\<close>

record counters =
  width :: nat
  blocks :: "int list"

definition cnt_finit :: "BitSieve \<Rightarrow> nat \<Rightarrow> nat \<Rightarrow> counters" where
  "cnt_finit sieve w segment_size =
     \<lparr>width = w,
      blocks = map (\<lambda>j. int (length (filter (test sieve) [j * w..<min (Suc j * w) segment_size])))
                 [0..<ceil_div segment_size w]\<rparr>"

definition cnt_update :: "counters \<Rightarrow> nat \<Rightarrow> nat \<Rightarrow> counters" where
  "cnt_update cnt pos segment_size =
     cnt\<lparr>blocks := (blocks cnt)[pos div width cnt := blocks cnt ! (pos div width cnt) - 1]\<rparr>"

definition cnt_query :: "BitSieve \<Rightarrow> counters \<Rightarrow> nat \<Rightarrow> int" where
  "cnt_query sieve cnt pos =
     sum_list (take (pos div width cnt) (blocks cnt))
       + int (popcount_range sieve (width cnt * (pos div width cnt)) pos)"

section \<open>The wheel of next multiples and cross-off (pi\_lmo\_parallel3.cpp)\<close>

text \<open>
  \<^verbatim>\<open>int64_t\<close> values are \<open>int\<close>, indices into vectors are \<open>nat\<close>. C++ division
  truncates; it is written out as \<open>cdiv\<close>. A division by zero and an index outside
  its vector are faults of the model.
\<close>

definition cdiv :: "int \<Rightarrow> int \<Rightarrow> int" where
  "cdiv a b = sgn a * sgn b * (\<bar>a\<bar> div \<bar>b\<bar>)"




text \<open>
  The body of the loop of \<^verbatim>\<open>cross_off\<close>: the guarded pair
  \<^verbatim>\<open>sieve.unset(pos); cnt_update(counters, pos, segment_size)\<close>.
\<close>

definition unset_update :: "nat \<Rightarrow> BitSieve \<times> counters \<Rightarrow> BitSieve \<times> counters" where
  "unset_update pos sc =
     (if test (fst sc) pos
      then (unset (fst sc) pos, cnt_update (snd sc) pos (sieve_size (fst sc)))
      else sc)"




section \<open>Integer helpers (pmath.hpp, not among the sources)\<close>

text \<open>
  Modelled from the spec: \<^verbatim>\<open>in_between\<close>, \<^verbatim>\<open>isqrt\<close> and \<^verbatim>\<open>next_power_of_2\<close>
  (pmath.hpp) are not among the sources. \<^verbatim>\<open>in_between(min, x, max)\<close> clamps \<open>x\<close> to
  \<open>[min, max]\<close>; \<^verbatim>\<open>isqrt\<close> is the integer square root; \<^verbatim>\<open>next_power_of_2(x)\<close> is the
  spec's \<^verbatim>\<open>next_pow2\<close>, the least power of two that is \<open>\<ge> x\<close>.
\<close>

definition in_between :: "'a::linorder \<Rightarrow> 'a \<Rightarrow> 'a \<Rightarrow> 'a" where
  "in_between lo x hi = (if x < lo then lo else if x > hi then hi else x)"

function isqrt_from :: "int \<Rightarrow> int \<Rightarrow> int" where
  "isqrt_from r n = (if 0 \<le> r \<and> (r + 1) * (r + 1) \<le> n then isqrt_from (r + 1) n else r)"
  by pat_completeness auto
termination
proof (relation "measure (\<lambda>(r, n). nat (n - r))")
  show "wf (measure (\<lambda>(r, n). nat (n - r)))"
    by simp
next
  fix r n :: int
  assume a: "0 \<le> r \<and> (r + 1) * (r + 1) \<le> n"
  define q where "q = (r + 1) * (r + 1)"
  have "(r + 1) * 1 \<le> (r + 1) * (r + 1)"
    using a by (intro mult_left_mono) simp_all
  then have "r + 1 \<le> q"
    by (simp only: q_def mult_1_right)
  moreover have "q \<le> n"
    using a by (simp only: q_def)
  ultimately have "r < n"
    by linarith
  then show "((r + 1, n), (r, n)) \<in> measure (\<lambda>(r, n). nat (n - r))"
    by simp
qed

definition isqrt :: "int \<Rightarrow> int" where
  "isqrt n = isqrt_from 0 n"

function power_of_2_from :: "int \<Rightarrow> int \<Rightarrow> int" where
  "power_of_2_from p n = (if 0 < p \<and> p < n then power_of_2_from (2 * p) n else p)"
  by pat_completeness auto
termination
  by (relation "measure (\<lambda>(p, n). nat (n - p))") auto

definition next_power_of_2 :: "int \<Rightarrow> int" where
  "next_power_of_2 n = power_of_2_from 1 n"

section \<open>The wave loop of S2 (pi\_lmo\_parallel3.cpp)\<close>

text \<open>
  What the loop takes from outside the sources is a parameter of the model:
  \<^item> \<open>ilog\<close> (pmath.hpp), the integer part of the natural logarithm, computed in
    floating point;
  \<^item> \<open>max_threads\<close>, the bound \<^verbatim>\<open>validate_threads\<close> clamps the thread count to;
  \<^item> \<open>wtime\<close>, the wall-clock seconds \<^verbatim>\<open>get_wtime\<close> measures for each wave,
    indexed by the number of the wave;
  \<^item> \<open>pi_bsearch\<close> and \<open>make_pi\<close>, which only feed the threads.
\<close>

record S2_env =
  ilog :: "int \<Rightarrow> int"
  max_threads :: int
  wtime :: "nat \<Rightarrow> real"
  pi_bsearch :: "int list \<Rightarrow> int \<Rightarrow> int"
  make_pi :: "int \<Rightarrow> int list"

text \<open>
  Modelled from the spec: \<^verbatim>\<open>validate_threads\<close> is not among the sources; the thread
  count of the interface is \<open>\<ge> 1\<close> and at most what the machine has.
\<close>

definition validate_threads :: "S2_env \<Rightarrow> int \<Rightarrow> int" where
  "validate_threads env threads = in_between 1 threads (max_threads env)"

text \<open>
  One call \<^verbatim>\<open>S2_thread(x, y, c, pi_sqrty, pi_y, segment_size, segments_per_thread, i,
  low, limit, pi, primes, lpf, mu, mu_sum[i], phi[i])\<close> of a wave, as a function of the
  four arguments that change from call to call: it returns its sum and the vectors
  \<^verbatim>\<open>mu_sum[i]\<close> and \<^verbatim>\<open>phi[i]\<close> it has filled, or a fault, or does not return.
\<close>

type_synonym thread_out = "int \<times> int list \<times> int list"

type_synonym thread_fn = "int \<Rightarrow> int \<Rightarrow> int \<Rightarrow> int \<Rightarrow> (fault + thread_out) option"

record S2_state =
  st_total :: int
  st_low :: int
  st_segment_size :: int
  st_segments_per_thread :: int
  st_threads :: int
  st_phi_total :: "int list"
  st_wave :: nat

text \<open>
  The \<^verbatim>\<open>omp parallel for\<close> of a wave. The threads share nothing they write, and
  \<^verbatim>\<open>reduction(+: S2_total)\<close> adds integers, so running them in index order gives what
  any schedule gives. A thread that does not return, or a fault, ends the wave.
\<close>

fun run_threads :: "(int \<Rightarrow> (fault + thread_out) option) \<Rightarrow> nat \<Rightarrow> (fault + thread_out list) option" where
  "run_threads f 0 = Some (Inr [])"
| "run_threads f (Suc n) =
     (case run_threads f n of
        None \<Rightarrow> None
      | Some (Inl e) \<Rightarrow> Some (Inl e)
      | Some (Inr outs) \<Rightarrow>
          (case f (int n) of
             None \<Rightarrow> None
           | Some (Inl e) \<Rightarrow> Some (Inl e)
           | Some (Inr out) \<Rightarrow> Some (Inr (outs @ [out]))))"

text \<open>
  The serial combine step for one thread:
  \<^verbatim>\<open>for (j = 1; j < phi[i].size(); j++) { S2_total += phi_total[j] * mu_sum[i][j];
  phi_total[j] += phi[i][j]; }\<close>.
\<close>

definition combine_thread :: "int \<times> int list \<Rightarrow> thread_out \<Rightarrow> fault + int \<times> int list" where
  "combine_thread acc out =
     (let mu_sum = fst (snd out); phi = snd (snd out)
      in if 1 < length phi \<and> (length (snd acc) < length phi \<or> length mu_sum < length phi)
         then Inl OutOfRange
         else Inr (fold (\<lambda>j (total, phi_total).
                          (total + phi_total ! j * mu_sum ! j, phi_total[j := phi_total ! j + phi ! j]))
                     [1..<length phi] acc))"

fun combine :: "int \<times> int list \<Rightarrow> thread_out list \<Rightarrow> fault + int \<times> int list" where
  "combine acc [] = Inr acc"
| "combine acc (out # outs) =
     (case combine_thread acc out of Inl e \<Rightarrow> Inl e | Inr acc' \<Rightarrow> combine acc' outs)"

text \<open>
  The first three assignments of the loop body, as functions of the state at its head:
  \<^verbatim>\<open>segments\<close>, the clamped \<^verbatim>\<open>threads\<close> and the clamped \<^verbatim>\<open>segments_per_thread\<close>.
\<close>

definition wave_segments :: "int \<Rightarrow> S2_state \<Rightarrow> int" where
  "wave_segments limit st =
     cdiv (limit - st_low st + st_segment_size st - 1) (st_segment_size st)"

definition wave_threads :: "int \<Rightarrow> S2_state \<Rightarrow> int" where
  "wave_threads limit st = in_between 1 (st_threads st) (wave_segments limit st)"

definition wave_segments_per_thread :: "int \<Rightarrow> S2_state \<Rightarrow> int" where
  "wave_segments_per_thread limit st =
     in_between 1 (st_segments_per_thread st)
       (cdiv (wave_segments limit st + wave_threads limit st - 1) (wave_threads limit st))"

text \<open>One pass through the body of \<^verbatim>\<open>while (low < limit)\<close>.\<close>

definition S2_wave :: "S2_env \<Rightarrow> thread_fn \<Rightarrow> int \<Rightarrow> int \<Rightarrow> S2_state \<Rightarrow> (fault + S2_state) option" where
  "S2_wave env thr limit sqrt_limit st =
     (let segment_size = st_segment_size st;
          low = st_low st;
          segments = cdiv (limit - low + segment_size - 1) segment_size;
          threads = in_between 1 (st_threads st) segments;
          segments_per_thread =
            in_between 1 (st_segments_per_thread st) (cdiv (segments + threads - 1) threads);
          seconds = wtime env (st_wave st)
      in case run_threads (\<lambda>i. thr segment_size segments_per_thread i low) (nat threads) of
           None \<Rightarrow> None
         | Some (Inl e) \<Rightarrow> Some (Inl e)
         | Some (Inr outs) \<Rightarrow>
             (let total = st_total st + sum_list (map fst outs);
                  low' = low + segments_per_thread * threads * segment_size;
                  grow = (low' > sqrt_limit \<and> seconds < 10);
                  segment_size' =
                    (if grow \<and> segment_size < sqrt_limit then push_bit 1 segment_size
                     else segment_size);
                  segments_per_thread' =
                    (if grow \<and> \<not> segment_size < sqrt_limit then segments_per_thread * 2
                     else segments_per_thread)
              in case combine (total, st_phi_total st) outs of
                   Inl e \<Rightarrow> Some (Inl e)
                 | Inr (total', phi_total') \<Rightarrow>
                     Some (Inr \<lparr>st_total = total', st_low = low',
                                st_segment_size = segment_size',
                                st_segments_per_thread = segments_per_thread',
                                st_threads = threads, st_phi_total = phi_total',
                                st_wave = Suc (st_wave st)\<rparr>)))"

text \<open>The loop \<^verbatim>\<open>while (low < limit)\<close>; \<open>None\<close> is a run that does not return.\<close>

partial_function (option) S2_loop ::
  "S2_env \<Rightarrow> thread_fn \<Rightarrow> int \<Rightarrow> int \<Rightarrow> S2_state \<Rightarrow> (fault + int) option" where
  "S2_loop env thr limit sqrt_limit st =
     (if st_low st < limit then
        (case S2_wave env thr limit sqrt_limit st of
           None \<Rightarrow> None
         | Some (Inl e) \<Rightarrow> Some (Inl e)
         | Some (Inr st') \<Rightarrow> S2_loop env thr limit sqrt_limit st')
      else Some (Inr (st_total st)))"

declare S2_loop.simps [code]

text \<open>
  The state at the head of the loop after \<open>n\<close> passes (fewer when the loop has
  ended before): what a run of \<^verbatim>\<open>S2\<close> goes through.
\<close>

fun S2_after :: "S2_env \<Rightarrow> thread_fn \<Rightarrow> int \<Rightarrow> int \<Rightarrow> nat \<Rightarrow> S2_state \<Rightarrow> (fault + S2_state) option" where
  "S2_after env thr limit sqrt_limit 0 st = Some (Inr st)"
| "S2_after env thr limit sqrt_limit (Suc n) st =
     (if st_low st < limit then
        (case S2_wave env thr limit sqrt_limit st of
           None \<Rightarrow> None
         | Some (Inl e) \<Rightarrow> Some (Inl e)
         | Some (Inr st') \<Rightarrow> S2_after env thr limit sqrt_limit n st')
      else Some (Inr st))"

text \<open>The state at the head of the loop: the declarations of \<^verbatim>\<open>S2\<close> before it.\<close>

definition S2_init :: "S2_env \<Rightarrow> int \<Rightarrow> int \<Rightarrow> int list \<Rightarrow> int \<Rightarrow> S2_state" where
  "S2_init env x y primes threads0 =
     (let threads = validate_threads env threads0;
          limit = cdiv x y + 1;
          sqrt_limit = isqrt limit;
          logx = max 1 (ilog env x);
          min_segment_size = push_bit 6 1;
          segment_size = next_power_of_2 (cdiv sqrt_limit (logx * threads))
      in \<lparr>st_total = 0, st_low = 1,
          st_segment_size = max segment_size min_segment_size,
          st_segments_per_thread = 1,
          st_threads = threads,
          st_phi_total = replicate (length primes) 0,
          st_wave = 0\<rparr>)"

text \<open>
  \<^verbatim>\<open>S2\<close>. The function \<^verbatim>\<open>S2_thread\<close> it calls is an argument of the model, with
  the arguments of the source in the source's order. The two divisions of the
  declarations are checked: \<^verbatim>\<open>x / y\<close> and \<^verbatim>\<open>sqrt_limit / (logx * threads)\<close>.
\<close>

type_synonym S2_thread_fn =
  "int \<Rightarrow> int \<Rightarrow> int \<Rightarrow> int \<Rightarrow> int \<Rightarrow> int \<Rightarrow> int \<Rightarrow> int \<Rightarrow> int \<Rightarrow> int
     \<Rightarrow> int list \<Rightarrow> int list \<Rightarrow> int list \<Rightarrow> int list \<Rightarrow> (fault + thread_out) option"

definition S2_call ::
  "S2_env \<Rightarrow> S2_thread_fn \<Rightarrow> int \<Rightarrow> int \<Rightarrow> int \<Rightarrow> int \<Rightarrow> int list \<Rightarrow> int list \<Rightarrow> int list \<Rightarrow> thread_fn" where
  "S2_call env S2_thread x y pi_y c primes lpf mu =
     (\<lambda>segment_size segments_per_thread i low.
        S2_thread x y c (pi_bsearch env primes (isqrt y)) pi_y segment_size segments_per_thread i
          low (cdiv x y + 1) (make_pi env y) primes lpf mu)"

definition S2 ::
  "S2_env \<Rightarrow> S2_thread_fn \<Rightarrow> int \<Rightarrow> int \<Rightarrow> int \<Rightarrow> int \<Rightarrow> int list \<Rightarrow> int list \<Rightarrow> int list \<Rightarrow> int
     \<Rightarrow> (fault + int) option" where
  "S2 env S2_thread x y pi_y c primes lpf mu threads0 =
     (if y = 0 \<or> max 1 (ilog env x) * validate_threads env threads0 = 0 then Some (Inl DivByZero)
      else
        (let limit = cdiv x y + 1;
             sqrt_limit = isqrt limit
         in S2_loop env (S2_call env S2_thread x y pi_y c primes lpf mu) limit sqrt_limit
              (S2_init env x y primes threads0)))"

section \<open>pi\_lmo\_parallel3 (pi\_lmo\_parallel3.cpp)\<close>

text \<open>
  Modelled from the spec: \<^verbatim>\<open>iroot<N>\<close> (pmath.hpp) is not among the sources; it is the
  integer \<open>N\<close>-th root.
\<close>

function iroot_from :: "nat \<Rightarrow> int \<Rightarrow> int \<Rightarrow> int" where
  "iroot_from k r n = (if 0 < k \<and> 0 \<le> r \<and> (r + 1) ^ k \<le> n then iroot_from k (r + 1) n else r)"
  by pat_completeness auto
termination
proof (relation "measure (\<lambda>(k, r, n). nat (n - r))")
  show "wf (measure (\<lambda>(k, r, n). nat (n - r)))"
    by simp
next
  fix k :: nat and r n :: int
  assume a: "0 < k \<and> 0 \<le> r \<and> (r + 1) ^ k \<le> n"
  define q where "q = (r + 1) ^ k"
  have "r + 1 \<le> q"
    unfolding q_def using a by (intro self_le_power) simp_all
  moreover have "q \<le> n"
    using a by (simp only: q_def)
  ultimately have "r < n"
    by linarith
  then show "((k, r + 1, n), (k, r, n)) \<in> measure (\<lambda>(k, r, n). nat (n - r))"
    by simp
qed

definition iroot :: "nat \<Rightarrow> int \<Rightarrow> int" where
  "iroot k n = iroot_from k 0 n"

text \<open>
  What \<^verbatim>\<open>pi_lmo_parallel3\<close> calls and the sources do not have is a parameter:
  \<open>loglog\<close> stands for the floating-point \<^verbatim>\<open>log(log((double) x))\<close>, \<open>S1\<close> and
  \<open>P2\<close> for the two other partial sums, \<open>make_moebius\<close>,
  \<open>make_least_prime_factor\<close> and \<open>generate_primes\<close> for the table generators, and
  \<open>MAX_A\<close> for \<^verbatim>\<open>PhiTiny::MAX_A\<close>. The doubles \<open>alpha\<close> and \<open>x13 * alpha\<close> are
  computed in the reals.
\<close>

record lmo_env =
  s2_env :: S2_env
  loglog :: "int \<Rightarrow> real"
  S1 :: "int \<Rightarrow> int \<Rightarrow> int \<Rightarrow> int list \<Rightarrow> int list \<Rightarrow> int list \<Rightarrow> int"
  P2 :: "int \<Rightarrow> int \<Rightarrow> int \<Rightarrow> int"
  make_moebius :: "int \<Rightarrow> int list"
  make_least_prime_factor :: "int \<Rightarrow> int list"
  generate_primes :: "int \<Rightarrow> int list"
  MAX_A :: int

text \<open>
  \<^verbatim>\<open>pi_lmo_parallel3\<close>. The source has one early return, \<^verbatim>\<open>if (x < 2) return 0;\<close>,
  and no statement that raises: a result is \<open>Some (Inr n)\<close>.
\<close>

definition pi_lmo_parallel3 :: "lmo_env \<Rightarrow> S2_thread_fn \<Rightarrow> int \<Rightarrow> int \<Rightarrow> (fault + int) option" where
  "pi_lmo_parallel3 env S2_thread x threads =
     (if x < 2 then Some (Inr 0)
      else
        (let beta = 1;
             alpha = in_between 1 (loglog env x * beta) (real_of_int (iroot 6 x));
             x13 = iroot 3 x;
             y = \<lfloor>real_of_int x13 * alpha\<rfloor>;
             mu = make_moebius env y;
             lpf = make_least_prime_factor env y;
             primes = 0 # generate_primes env y;
             pi_y = int (length primes) - 1;
             c = min (MAX_A env) pi_y;
             s1 = S1 env x y c primes lpf mu
         in case S2 (s2_env env) S2_thread x y pi_y c primes lpf mu threads of
              None \<Rightarrow> None
            | Some (Inl e) \<Rightarrow> Some (Inl e)
            | Some (Inr s2) \<Rightarrow>
                (let p2 = P2 env x y threads;
                     phi = s1 + s2;
                     sum = phi + pi_y - 1 - p2
                 in Some (Inr sum))))"

section \<open>Primes and the prime counting function\<close>

text \<open>
  The claims speak of \<open>\<pi>(n)\<close>, the number of primes \<open>\<le> n\<close>. Primality is trial
  division, written so that it can be evaluated.
\<close>

definition is_prime :: "nat \<Rightarrow> bool" where
  "is_prime n = (2 \<le> n \<and> (\<forall>d\<in>{2..<n}. \<not> d dvd n))"

definition prime_pi :: "nat \<Rightarrow> nat" where
  "prime_pi n = length (filter is_prime [0..<Suc n])"

section \<open>PiTable (src/PiTable.cpp)\<close>

text \<open>
  \<^verbatim>\<open>uint64_t\<close> values are \<open>nat\<close>, and the three places where the source can wrap
  around (\<^verbatim>\<open>max_x + 1\<close>, \<^verbatim>\<open>cache_limit + thread_dist * t\<close>, \<^verbatim>\<open>low + thread_dist\<close>) are
  taken modulo \<open>2 ^ 64\<close>. The bits of a word are a \<open>64 word\<close>.

  Modelled from the spec: PiTable.hpp is not among the sources. An element of the table
  is a record \<^verbatim>\<open>{count, bits}\<close>. Each word covers an interval of 240 numbers: byte
  \<open>k\<close> of the word covers \<open>[30 k, 30 k + 30)\<close> and its 8 bits stand for the offsets
  1, 7, 11, 13, 17, 19, 23, 29. \<^verbatim>\<open>set_bit_[r]\<close> is the bit of the residue \<open>r\<close> modulo
  240 (0 for a residue that has no bit), and the query \<open>\<pi>(n)\<close> adds the stored count
  of the word of \<open>n\<close> to the popcount of its bits masked to the residues \<open>\<le> n mod 240\<close>.
\<close>

record pi_t =
  pt_count :: nat
  pt_bits :: "64 word"

definition wheel_offsets :: "nat list" where
  "wheel_offsets = [1, 7, 11, 13, 17, 19, 23, 29]"

definition bit_number :: "nat \<Rightarrow> nat" where
  "bit_number j = 30 * (j div 8) + wheel_offsets ! (j mod 8)"

definition set_bit_tab :: "64 word list" where
  "set_bit_tab =
     map (\<lambda>r. if r mod 30 \<in> set wheel_offsets
              then push_bit (8 * (r div 30) + length (takeWhile (\<lambda>k. k \<noteq> r mod 30) wheel_offsets)) 1
              else 0)
       [0..<240]"

definition unset_larger_tab :: "64 word list" where
  "unset_larger_tab =
     map (\<lambda>r. horner_sum of_bool 2 (map (\<lambda>j. bit_number j \<le> r) [0..<64])) [0..<240]"

text \<open>The static table \<^verbatim>\<open>PiTable::pi_cache_\<close>, 128 elements \<^verbatim>\<open>{ bit_count, bits }\<close>.\<close>

definition pi_cache :: "pi_t list" where
  "pi_cache = map (\<lambda>(c, b). \<lparr>pt_count = c, pt_bits = b\<rparr>)
   [(3, 0xF93DDBB67EEFDFFE), (52, 0x9EEDA6EAF31E4FD5),
    (92, 0xA559DD3BD3D30CE6), (128, 0x56A61E78BD92676A),
    (162, 0x554C2ADE2DADE356), (196, 0xF8A154039FF0A3D9),
    (228, 0x3A13F666E944FD2E), (263, 0x54BF11453A2B4CB8),
    (293, 0x4F8CBCC8B37AC18C), (325, 0xEF17C19B71715821),
    (357, 0x468C83E5081A9654), (382, 0x87588F9265AEFB72),
    (417, 0xA0E3266581D892D2), (444, 0x99EB813C26C73811),
    (473, 0x4D33F3243E88518D), (503, 0x4C58B42AA71C8B5A),
    (532, 0xC383DC8219F6264E), (562, 0x02CDCDB50238F12C),
    (590, 0x307A4C570C944AB2), (617, 0xF8246C44CBF10B43),
    (646, 0x8DEA735CA8950119), (675, 0xC41E22A6502B9624),
    (700, 0x9C742F3AD40648D1), (729, 0x2E1568BF88056A07),
    (757, 0x14089851B7E35560), (783, 0x2770494D45AA5A86),
    (811, 0x618302ABCAD593D2), (840, 0xADA9C22287CE2405),
    (867, 0xB01689D1784D8C18), (893, 0x522434C0A262C757),
    (919, 0x4308218D32405AAE), (942, 0x60E119D9B6D2B634),
    (973, 0x947A44D060391A67), (1000, 0x105574A88388099A),
    (1023, 0x32C8231E685DA127), (1051, 0x38B14873440319E0),
    (1075, 0x1CB59861572AE6C3), (1106, 0x2902AC8F81C5680A),
    (1130, 0x2E644E1194E3471A), (1158, 0x1006C514DC3DCB14),
    (1184, 0xE34730E982B129E9), (1214, 0xB430300A25C31934),
    (1237, 0x4C8ED84446E5C16C), (1265, 0x818992787024225D),
    (1289, 0xA508E9861B265682), (1315, 0x104AC2B029C3D300),
    (1337, 0xC760421DA13859B2), (1364, 0x8BC61A44C88C2722),
    (1389, 0x0931A610461A8182), (1409, 0x15A9D8D2182F54F0),
    (1438, 0x91500EC0F60C2E06), (1462, 0xC319653818C126CD),
    (1489, 0x4A84D62D2A8B9356), (1518, 0xC476E0092CA50A61),
    (1543, 0x1B6614E808D83C6A), (1570, 0x073110366302A4B0),
    (1592, 0xA08AC312424892D5), (1615, 0x5C788582A4742D9F),
    (1645, 0xE8021D1461B0180D), (1667, 0x30831C4901C11218),
    (1686, 0xF40C0FD888A13367), (1715, 0xB1474266D7588898),
    (1743, 0x155941180896A816), (1765, 0xA1AAB3E1522A44B5),
    (1794, 0x0CA5111855624559), (1818, 0x0AD654BE00673CA3),
    (1847, 0x7E08150C826B3620), (1871, 0x840A61D078019156),
    (1893, 0x50A0560E57012CA8), (1916, 0x1063206C478C980B),
    (1939, 0x750B88570CE409C4), (1965, 0x022439C28252C20B),
    (1986, 0xA3D629317A25562C), (2016, 0x328A0CB018B1E120),
    (2038, 0x3730ADC5093211C1), (2064, 0x6B2520CF8291BC08),
    (2090, 0x076A4626448F309C), (2116, 0xC525021058098E49),
    (2137, 0x903C80A0805A42C4), (2156, 0x0C518403E1146428),
    (2176, 0x7E47C008A48AA32E), (2203, 0x04002A54CD032BD3),
    (2226, 0xC1834C29426C92B3), (2252, 0x38DB21462D1CCC92),
    (2280, 0xE0BB5812248C8459), (2305, 0x912809C930700D06),
    (2326, 0xC280308CF9324441), (2348, 0x1483817D0C62A472),
    (2373, 0x14780A82150EAAE1), (2397, 0xB2F02E6F10089770),
    (2425, 0x866253324449301D), (2449, 0xD9364B110A844565),
    (2475, 0x197C9080613A698C), (2500, 0x2D050C8B409530C0),
    (2521, 0x1A8596B4A171C00E), (2547, 0xB7484C511415C016),
    (2571, 0xA1022E8A89109579), (2595, 0x220891108190D51C),
    (2614, 0x5C2033C078E91EB4), (2642, 0x471023AAE20EC48B),
    (2668, 0xA851A1197B5528E3), (2697, 0x6061D12C82900406),
    (2716, 0x23548144410652A1), (2736, 0x4872222704A91888),
    (2757, 0x29CA1712421C40B6), (2781, 0x898452E13C015AA0),
    (2804, 0xD2692CF1064001DA), (2829, 0xC88A3421C1634248),
    (2851, 0x442E88092671216C), (2874, 0xD11286981D9228D5),
    (2900, 0x5014462046A0A352), (2920, 0x8CA9445083DDDC83),
    (2948, 0x391B8914542E144D), (2974, 0x02808F2981148042),
    (2991, 0x0C05B08382963203), (3012, 0x1AECD9F807885114),
    (3040, 0x230686435C314806), (3062, 0xB2F000A50C4409B3),
    (3085, 0xB618C242E1CA0180), (3107, 0x612C29522EC79B2C),
    (3136, 0x5E80848B24268A1A), (3159, 0x2145352A53C10260),
    (3181, 0x04484AC5B842D152), (3204, 0xC45009C161237016),
    (3226, 0x28221601D9188881), (3245, 0x09532438EB84908C),
    (3269, 0x30860982146A41A9), (3290, 0x5A952B004238A29C)]"

record PiTable =
  pi_vec :: "pi_t list"
  counts_vec :: "nat list"
  max_x_val :: nat

text \<open>
  Modelled from the spec: the external prime generator yields the primes in order;
  \<^verbatim>\<open>primesieve::iterator it(low, high)\<close> with the loop
  \<^verbatim>\<open>while ((prime = it.next_prime()) < high)\<close> goes through the primes of
  \<open>[low, high)\<close> in increasing order.
\<close>

definition primes_between :: "nat \<Rightarrow> nat \<Rightarrow> nat list" where
  "primes_between low high = filter is_prime [low..<high]"

text \<open>
  \<^verbatim>\<open>PiTable::init_bits\<close>. \<^verbatim>\<open>std::fill_n(&pi_[i], j - i, pi_t{0, 0})\<close> and the writes
  of the loop must stay inside \<^verbatim>\<open>pi_\<close>, and \<^verbatim>\<open>counts_[thread_num]\<close> inside
  \<^verbatim>\<open>counts_\<close>.
\<close>

definition fill_zero :: "pi_t list \<Rightarrow> nat \<Rightarrow> nat \<Rightarrow> pi_t list" where
  "fill_zero v i n = take i v @ replicate n \<lparr>pt_count = 0, pt_bits = 0\<rparr> @ drop (i + n) v"

definition set_prime_bit :: "nat \<Rightarrow> pi_t list \<Rightarrow> pi_t list" where
  "set_prime_bit prime v =
     v[prime div 240 := (v ! (prime div 240))
         \<lparr>pt_bits := pt_bits (v ! (prime div 240)) OR set_bit_tab ! (prime mod 240)\<rparr>]"

definition init_bits :: "PiTable \<Rightarrow> nat \<Rightarrow> nat \<Rightarrow> nat \<Rightarrow> fault + PiTable" where
  "init_bits tbl low high thread_num =
     (let i = low div 240;
          j = ceil_div high 240
      in if j < i \<or> length (pi_vec tbl) < j \<or> \<not> thread_num < length (counts_vec tbl)
         then Inl OutOfRange
         else
           (let v = fill_zero (pi_vec tbl) i (j - i);
                low' = max low 7;
                ps = primes_between low' high;
                v' = fold set_prime_bit ps v;
                cnt = fold (\<lambda>prime c. c + 1) ps 0
            in Inr (tbl\<lparr>pi_vec := v', counts_vec := (counts_vec tbl)[thread_num := cnt]\<rparr>)))"

text \<open>\<^verbatim>\<open>PiTable::init_count\<close>.\<close>

definition init_count :: "PiTable \<Rightarrow> nat \<Rightarrow> nat \<Rightarrow> nat \<Rightarrow> fault + PiTable" where
  "init_count tbl low high thread_num =
     (let cache_last = last pi_cache;
          cnt0 = pt_count cache_last + popcount64 (pt_bits cache_last)
      in if length (counts_vec tbl) < thread_num \<or> length (pi_vec tbl) < ceil_div high 240
         then Inl OutOfRange
         else
           (let cnt = fold (\<lambda>i c. c + counts_vec tbl ! i) [0..<thread_num] cnt0;
                i = low div 240;
                stop_idx = ceil_div high 240
            in Inr (tbl\<lparr>pi_vec :=
                 fst (fold (\<lambda>i (v, c). (v[i := (v ! i)\<lparr>pt_count := c\<rparr>], c + popcount64 (pt_bits (v ! i))))
                        [i..<stop_idx] (pi_vec tbl, cnt))\<rparr>)))"

text \<open>
  One of the two \<^verbatim>\<open>omp for\<close> loops of \<^verbatim>\<open>PiTable::init\<close>, with the body \<open>f\<close>
  (\<open>init_bits\<close>, then \<open>init_count\<close> after the barrier). The threads write disjoint
  words and disjoint elements of \<^verbatim>\<open>counts_\<close>, so the loop is run in index order.
\<close>

fun for_threads ::
  "(PiTable \<Rightarrow> nat \<Rightarrow> nat \<Rightarrow> nat \<Rightarrow> fault + PiTable) \<Rightarrow> nat \<Rightarrow> nat \<Rightarrow> nat \<Rightarrow> nat list
     \<Rightarrow> PiTable \<Rightarrow> fault + PiTable" where
  "for_threads f limit cache_limit thread_dist [] tbl = Inr tbl"
| "for_threads f limit cache_limit thread_dist (t # ts) tbl =
     (let low = (cache_limit + thread_dist * t) mod 2 ^ 64;
          high = min ((low + thread_dist) mod 2 ^ 64) limit
      in if low < high then
           (case f tbl low high t of
              Inl e \<Rightarrow> Inl e
            | Inr tbl' \<Rightarrow> for_threads f limit cache_limit thread_dist ts tbl')
         else for_threads f limit cache_limit thread_dist ts tbl)"

text \<open>
  \<^verbatim>\<open>PiTable::init\<close>. \<^verbatim>\<open>ideal_num_threads\<close> is not among the sources and is a
  parameter. A thread count of 0 divides by zero, and a negative one does not give a
  size for \<^verbatim>\<open>counts_.resize(threads)\<close>.
\<close>

definition init ::
  "(nat \<Rightarrow> int \<Rightarrow> nat \<Rightarrow> int) \<Rightarrow> PiTable \<Rightarrow> nat \<Rightarrow> nat \<Rightarrow> int \<Rightarrow> fault + PiTable" where
  "init ideal_num_threads tbl limit cache_limit threads0 =
     (if \<not> cache_limit < limit then Inl AssertFailed
      else
        (let dist = limit - cache_limit;
             thread_threshold = 10000000;
             threads = ideal_num_threads dist threads0 thread_threshold
         in if threads = 0 then Inl DivByZero
            else if threads < 0 then Inl OutOfRange
            else
              (let thread_dist0 = max thread_threshold (dist div nat threads);
                   thread_dist = thread_dist0 + (240 - thread_dist0 mod 240);
                   tbl1 = tbl\<lparr>counts_vec := replicate (nat threads) 0\<rparr>
               in case for_threads init_bits limit cache_limit thread_dist [0..<nat threads] tbl1 of
                    Inl e \<Rightarrow> Inl e
                  | Inr tbl2 \<Rightarrow>
                      for_threads init_count limit cache_limit thread_dist [0..<nat threads] tbl2)))"

text \<open>The constructor \<^verbatim>\<open>PiTable::PiTable(max_x, threads)\<close>.\<close>

definition PiTable_new :: "(nat \<Rightarrow> int \<Rightarrow> nat \<Rightarrow> int) \<Rightarrow> nat \<Rightarrow> int \<Rightarrow> fault + PiTable" where
  "PiTable_new ideal_num_threads max_x threads =
     (let limit = (max_x + 1) mod 2 ^ 64;
          sz = ceil_div limit 240;
          n = min (length pi_cache) sz;
          v = take n pi_cache @ replicate (sz - n) \<lparr>pt_count = 0, pt_bits = 0\<rparr>;
          tbl = \<lparr>pi_vec = v, counts_vec = [], max_x_val = max_x\<rparr>;
          cache_limit = length pi_cache * 240
      in if limit > cache_limit then init ideal_num_threads tbl limit cache_limit threads
         else Inr tbl)"

text \<open>
  The query: the stored count of the word of \<open>n\<close> plus the popcount of its bits masked
  to the residues \<open>\<le> n mod 240\<close>; \<open>None\<close> when the constructor has not returned a table.
\<close>

definition pi_query :: "PiTable \<Rightarrow> nat \<Rightarrow> nat" where
  "pi_query tbl n =
     pt_count (pi_vec tbl ! (n div 240))
       + popcount64 (pt_bits (pi_vec tbl ! (n div 240)) AND unset_larger_tab ! (n mod 240))"

definition PiTable_pi :: "(nat \<Rightarrow> int \<Rightarrow> nat \<Rightarrow> int) \<Rightarrow> nat \<Rightarrow> int \<Rightarrow> nat \<Rightarrow> nat option" where
  "PiTable_pi ideal_num_threads max_x threads n =
     (case PiTable_new ideal_num_threads max_x threads of
        Inl e \<Rightarrow> None
      | Inr tbl \<Rightarrow> Some (pi_query tbl n))"

section \<open>Example inputs\<close>

text \<open>
  Closed inputs for the instances below: an environment with one hardware thread whose
  clock measures 0 seconds for every wave (\<open>ilog 20000 = 9\<close>, \<open>ilog 199 = 5\<close>), and a
  thread function that returns at once with empty vectors.
\<close>

definition example_env :: S2_env where
  "example_env =
     \<lparr>ilog = (\<lambda>x. if x = 20000 then 9 else 5), max_threads = 1, wtime = (\<lambda>n. 0),
      pi_bsearch = (\<lambda>primes n. 0), make_pi = (\<lambda>y. [])\<rparr>"

definition example_S2_thread :: S2_thread_fn where
  "example_S2_thread =
     (\<lambda>x y c pi_sqrty pi_y segment_size segments_per_thread i low limit pi_tab primes lpf mu.
        Some (Inr (1, [], [])))"

definition example_lmo_env :: lmo_env where
  "example_lmo_env =
     \<lparr>s2_env = example_env, loglog = (\<lambda>x. 1), S1 = (\<lambda>x y c primes lpf mu. 0),
      P2 = (\<lambda>x y threads. 0), make_moebius = (\<lambda>y. []), make_least_prime_factor = (\<lambda>y. []),
      generate_primes = (\<lambda>y. []), MAX_A = 6\<rparr>"

chapter \<open>Properties\<close>

section \<open>BitSieve: bit positions, population counts\<close>

lemma and63: "(n::nat) AND 63 = n mod 64"
proof -
  have "n AND mask 6 = n mod 2 ^ 6" by (simp only: take_bit_eq_mask [symmetric] take_bit_eq_mod)
  then show ?thesis by (simp add: mask_eq_exp_minus_1)
qed

lemma drop6: "drop_bit 6 (n::nat) = n div 64"
  by (simp add: drop_bit_eq_div)

lemma test_alt: "test s i = bit (bits s ! (i div 64)) (i mod 64)"
  by (simp add: test_def and63 drop6)

lemma popcount64_card: "popcount64 w = card {j. j < 64 \<and> bit w j}"
proof -
  have "{i. i < 64 \<and> bit w ([0..<64] ! i)} = {j. j < 64 \<and> bit w j}"
    by auto
  then show ?thesis
    by (simp add: popcount64_def length_filter_conv_card)
qed

lemma full_mask: "(0xffffffffffffffff :: 64 word) = - 1"
  by simp

lemma bit_mask1: "bit (push_bit n (0xffffffffffffffff :: 64 word)) j \<longleftrightarrow> n \<le> j \<and> j < 64"
  unfolding full_mask by (auto simp add: bit_simps)

lemma bit_mask2: "bit (drop_bit n (0xffffffffffffffff :: 64 word)) j \<longleftrightarrow> j + n < 64"
  unfolding full_mask by (auto simp add: bit_simps)

lemma word_block_image:
  "{i. 64 * k \<le> i \<and> i < 64 * k + 64 \<and> P (i - 64 * k)} = (\<lambda>j. 64 * k + j) ` {j::nat. j < 64 \<and> P j}"
proof (rule set_eqI, rule iffI)
  fix i assume "i \<in> {i. 64 * k \<le> i \<and> i < 64 * k + 64 \<and> P (i - 64 * k)}"
  then have "i - 64 * k \<in> {j. j < 64 \<and> P j}" and "i = 64 * k + (i - 64 * k)" by auto
  then show "i \<in> (\<lambda>j. 64 * k + j) ` {j. j < 64 \<and> P j}" by (rule_tac image_eqI) 
next
  fix i assume "i \<in> (\<lambda>j. 64 * k + j) ` {j. j < 64 \<and> P j}"
  then show "i \<in> {i. 64 * k \<le> i \<and> i < 64 * k + 64 \<and> P (i - 64 * k)}" by auto
qed

lemma popcount64_block:
  "popcount64 (bits s ! k AND m) =
     card {i. 64 * k \<le> i \<and> i < 64 * k + 64 \<and> test s i \<and> bit m (i mod 64)}"
proof -
  let ?P = "\<lambda>j. bit (bits s ! k) j \<and> bit m j"
  have eq: "{i. 64 * k \<le> i \<and> i < 64 * k + 64 \<and> test s i \<and> bit m (i mod 64)}
      = {i. 64 * k \<le> i \<and> i < 64 * k + 64 \<and> ?P (i - 64 * k)}"
  proof -
    have "\<And>i. 64 * k \<le> i \<Longrightarrow> i < 64 * k + 64 \<Longrightarrow> i div 64 = k \<and> i mod 64 = i - 64 * k"
    proof -
      fix i :: nat assume a: "64 * k \<le> i" "i < 64 * k + 64"
      then have "i div 64 = k" by simp
      moreover from this have "i mod 64 = i - 64 * k"
        using minus_mult_div_eq_mod [of i 64] by simp
      ultimately show "i div 64 = k \<and> i mod 64 = i - 64 * k" by simp
    qed
    then show ?thesis by (auto simp add: test_alt)
  qed
  have "popcount64 (bits s ! k AND m) = card {j. j < 64 \<and> ?P j}"
    by (simp add: popcount64_card bit_and_iff)
  also have "\<dots> = card ((\<lambda>j. 64 * k + j) ` {j. j < 64 \<and> ?P j})"
    by (rule card_image [symmetric]) (simp add: inj_on_def)
  also have "\<dots> = card {i. 64 * k \<le> i \<and> i < 64 * k + 64 \<and> ?P (i - 64 * k)}"
    by (rule arg_cong [where f = card], rule word_block_image [of k ?P, symmetric])
  finally show ?thesis by (simp only: eq)
qed

lemma popcount64_full_block:
  "popcount64 (bits s ! k) = card {i. 64 * k \<le> i \<and> i < 64 * k + 64 \<and> test s i}"
proof -
  have "popcount64 (bits s ! k) = popcount64 (bits s ! k AND (- 1))" by simp
  also have "\<dots> = card {i. 64 * k \<le> i \<and> i < 64 * k + 64 \<and> test s i \<and> bit (- 1 :: 64 word) (i mod 64)}"
    by (rule popcount64_block)
  also have "{i. 64 * k \<le> i \<and> i < 64 * k + 64 \<and> test s i \<and> bit (- 1 :: 64 word) (i mod 64)}
     = {i. 64 * k \<le> i \<and> i < 64 * k + 64 \<and> test s i}"
    by (auto simp add: bit_minus_1_iff)
  finally show ?thesis .
qed

lemma fold_popcount:
  "a \<le> b \<Longrightarrow>
   fold (\<lambda>i c. c + popcount64 (bits s ! i)) [a..<b] c0 =
     c0 + card {i. 64 * a \<le> i \<and> i < 64 * b \<and> test s i}"
proof (induction b)
  case 0
  then show ?case by simp
next
  case (Suc b)
  show ?case
  proof (cases "a = Suc b")
    case True
    then show ?thesis by simp
  next
    case False
    with Suc.prems have ab: "a \<le> b" by simp
    let ?A = "{i. 64 * a \<le> i \<and> i < 64 * b \<and> test s i}"
    let ?B = "{i. 64 * b \<le> i \<and> i < 64 * b + 64 \<and> test s i}"
    have un: "{i. 64 * a \<le> i \<and> i < 64 * Suc b \<and> test s i} = ?A \<union> ?B"
      using ab by auto
    have cu: "card (?A \<union> ?B) = card ?A + card ?B"
      by (rule card_Un_disjoint) auto
    have "fold (\<lambda>i c. c + popcount64 (bits s ! i)) [a..<Suc b] c0
        = fold (\<lambda>i c. c + popcount64 (bits s ! i)) [a..<b] c0 + popcount64 (bits s ! b)"
      using ab by simp
    also have "\<dots> = c0 + card ?A + card ?B"
      by (simp only: Suc.IH [OF ab] popcount64_full_block [of s b])
    also have "\<dots> = c0 + card (?A \<union> ?B)"
      using cu by simp
    finally show ?thesis by (simp only: un)
  qed
qed

lemma count_card:
  assumes "stop < sieve_size s"
  shows "count s start stop = Inr (card {i. start \<le> i \<and> i \<le> stop \<and> test s i})"
proof (cases "start > stop")
  case True
  then have "{i. start \<le> i \<and> i \<le> stop \<and> test s i} = {}" by auto
  with True show ?thesis by (simp add: count_def)
next
  case False
  then have le: "start \<le> stop" by simp
  let ?i1 = "start div 64" and ?i2 = "stop div 64"
  let ?S = "{i. start \<le> i \<and> i \<le> stop \<and> test s i}"
  have i12: "?i1 \<le> ?i2" using le by (rule div_le_mono)
  show ?thesis
  proof (cases "?i1 = ?i2")
    case True
    have "{i. 64 * ?i1 \<le> i \<and> i < 64 * ?i1 + 64 \<and> test s i \<and>
              bit (push_bit (start mod 64) (0xffffffffffffffff :: 64 word) AND
                   drop_bit (63 - stop mod 64) (0xffffffffffffffff :: 64 word)) (i mod 64)} = ?S"
      (is "?L = ?S")
    proof (rule set_eqI)
      fix i
      show "i \<in> ?L \<longleftrightarrow> i \<in> ?S"
      proof (cases "i div 64 = ?i1")
        case same: True
        have "start mod 64 \<le> i mod 64 \<longleftrightarrow> start \<le> i"
          using same by (metis (no_types) add_le_cancel_left div_mult_mod_eq mult.commute)
        moreover have "i mod 64 + (63 - stop mod 64) < 64 \<longleftrightarrow> i \<le> stop"
        proof -
          have "i mod 64 \<le> stop mod 64 \<longleftrightarrow> i \<le> stop"
            using same True by (metis (no_types) add_le_cancel_left div_mult_mod_eq mult.commute)
          moreover have "stop mod 64 < 64" by simp
          ultimately show ?thesis by linarith
        qed
        moreover have "64 * ?i1 \<le> i \<and> i < 64 * ?i1 + 64"
          using same by (metis (no_types) add.commute div_mult_mod_eq le_add2 mod_less_divisor mult.commute nat_add_left_cancel_less zero_less_numeral)
        ultimately show ?thesis
          by (auto simp add: bit_and_iff bit_mask1 bit_mask2)
      next
        case diff: False
        then have "\<not> (64 * ?i1 \<le> i \<and> i < 64 * ?i1 + 64)" by auto
        moreover have "\<not> (start \<le> i \<and> i \<le> stop)"
        proof
          assume "start \<le> i \<and> i \<le> stop"
          then have "?i1 \<le> i div 64" "i div 64 \<le> ?i2" by (simp_all add: div_le_mono)
          with True diff show False by simp
        qed
        ultimately show ?thesis by blast
      qed
    qed
    then have "count_edges s start stop = card ?S"
      using True by (simp add: count_edges_def Let_def and63 drop6 popcount64_block)
    moreover have "fold (\<lambda>i c. c + popcount64 (bits s ! i)) [?i1 + 1..<?i2] c = c" for c
      using True by simp
    ultimately show ?thesis using le assms
      by (simp add: count_def drop6)
  next
    case False
    with i12 have lt: "?i1 < ?i2" by simp
    let ?A = "{i. 64 * ?i1 \<le> i \<and> i < 64 * ?i1 + 64 \<and> test s i \<and>
              bit (push_bit (start mod 64) (0xffffffffffffffff :: 64 word)) (i mod 64)}"
    let ?C = "{i. 64 * ?i2 \<le> i \<and> i < 64 * ?i2 + 64 \<and> test s i \<and>
              bit (drop_bit (63 - stop mod 64) (0xffffffffffffffff :: 64 word)) (i mod 64)}"
    let ?M = "{i. 64 * (?i1 + 1) \<le> i \<and> i < 64 * ?i2 \<and> test s i}"
    have A: "?A = {i. start \<le> i \<and> i < 64 * ?i1 + 64 \<and> test s i}"
    proof (rule set_eqI)
      fix i
      show "i \<in> ?A \<longleftrightarrow> i \<in> {i. start \<le> i \<and> i < 64 * ?i1 + 64 \<and> test s i}"
      proof (cases "i div 64 = ?i1")
        case same: True
        have "start mod 64 \<le> i mod 64 \<longleftrightarrow> start \<le> i"
          using same by (metis (no_types) add_le_cancel_left div_mult_mod_eq mult.commute)
        moreover have "64 * ?i1 \<le> i \<and> i < 64 * ?i1 + 64"
          using same by (metis (no_types) add.commute div_mult_mod_eq le_add2 mod_less_divisor mult.commute nat_add_left_cancel_less zero_less_numeral)
        ultimately show ?thesis by (auto simp add: bit_mask1)
      next
        case diff: False
        then have n: "\<not> (64 * ?i1 \<le> i \<and> i < 64 * ?i1 + 64)" by auto
        have "\<not> (start \<le> i \<and> i < 64 * ?i1 + 64)"
        proof
          assume h: "start \<le> i \<and> i < 64 * ?i1 + 64"
          then have "64 * ?i1 \<le> i" by (metis (no_types) div_mult_mod_eq le_add1 le_trans mult.commute)
          with h n show False by simp
        qed
        with n show ?thesis by blast
      qed
    qed
    have C: "?C = {i. 64 * ?i2 \<le> i \<and> i \<le> stop \<and> test s i}"
    proof (rule set_eqI)
      fix i
      show "i \<in> ?C \<longleftrightarrow> i \<in> {i. 64 * ?i2 \<le> i \<and> i \<le> stop \<and> test s i}"
      proof (cases "i div 64 = ?i2")
        case same: True
        have "i mod 64 \<le> stop mod 64 \<longleftrightarrow> i \<le> stop"
          using same by (metis (no_types) add_le_cancel_left div_mult_mod_eq mult.commute)
        moreover have "stop mod 64 < 64" by simp
        ultimately have "i mod 64 + (63 - stop mod 64) < 64 \<longleftrightarrow> i \<le> stop" by linarith
        moreover have "64 * ?i2 \<le> i \<and> i < 64 * ?i2 + 64"
          using same by (metis (no_types) add.commute div_mult_mod_eq le_add2 mod_less_divisor mult.commute nat_add_left_cancel_less zero_less_numeral)
        ultimately show ?thesis by (auto simp add: bit_mask2)
      next
        case diff: False
        then have n: "\<not> (64 * ?i2 \<le> i \<and> i < 64 * ?i2 + 64)" by auto
        have "\<not> (64 * ?i2 \<le> i \<and> i \<le> stop)"
        proof
          assume h: "64 * ?i2 \<le> i \<and> i \<le> stop"
          have "stop < 64 * ?i2 + 64"
            by (metis (no_types) add.commute div_mult_mod_eq mod_less_divisor mult.commute nat_add_left_cancel_less zero_less_numeral)
          with h n show False by simp
        qed
        with n show ?thesis by blast
      qed
    qed
    have s1: "start < 64 * ?i1 + 64"
      by (metis (no_types) add.commute div_mult_mod_eq mod_less_divisor mult.commute nat_add_left_cancel_less zero_less_numeral)
    have s2: "64 * ?i2 \<le> stop"
      by (metis (no_types) div_mult_mod_eq le_add1 mult.commute)
    have s3: "64 * ?i1 + 64 \<le> 64 * ?i2" using lt by simp
    define SA where "SA = ?A"
    define SM where "SM = ?M"
    define SC where "SC = ?C"
    have un: "?S = (SA \<union> SM) \<union> SC"
      unfolding SA_def SM_def SC_def A C using s1 s2 s3 by auto
    have dj1: "SA \<inter> SM = {}" unfolding SA_def SM_def A by auto
    have dj2: "(SA \<union> SM) \<inter> SC = {}" unfolding SA_def SM_def SC_def A C using s3 by auto
    have fin: "finite SA" "finite SM" "finite SC" unfolding SA_def SM_def SC_def by simp_all
    have c1: "card (SA \<union> SM) = card SA + card SM"
      using fin dj1 by (intro card_Un_disjoint)
    have c2: "card ((SA \<union> SM) \<union> SC) = card (SA \<union> SM) + card SC"
      using fin dj2 by (intro card_Un_disjoint) simp_all
    have cS: "card ?S = card SA + card SC + card SM"
      unfolding un c2 c1 by simp
    have ce: "count_edges s start stop = card SA + card SC"
      unfolding SA_def SC_def
      using False by (simp add: count_edges_def Let_def and63 drop6 popcount64_block)
    have fo: "fold (\<lambda>i c. c + popcount64 (bits s ! i)) [?i1 + 1..<?i2] (card SA + card SC)
         = card SA + card SC + card SM"
      unfolding SM_def using lt by (simp add: fold_popcount)
    have "count s start stop =
       Inr (fold (\<lambda>i c. c + popcount64 (bits s ! i)) [?i1 + 1..<?i2] (count_edges s start stop))"
      using le assms by (simp add: count_def drop6)
    then show ?thesis
      by (simp only: ce fo cS)
  qed
qed


lemma card_range_filter:
  "card {i. start \<le> i \<and> i \<le> stop \<and> P i} = length (filter P [start..<Suc stop])"
proof -
  have "{i. start \<le> i \<and> i \<le> stop \<and> P i} = set (filter P [start..<Suc stop])"
    by auto
  moreover have "distinct (filter P [start..<Suc stop])"
    by simp
  ultimately show ?thesis
    by (simp only: distinct_card)
qed

text \<open>
  Claim C6. For every BitSieve and all indices \<open>start\<close>, \<open>stop\<close> with \<open>stop < size\<close>,
  \<^verbatim>\<open>count(start, stop)\<close> returns the number of 1 bits at the positions of the inclusive
  range \<open>[start, stop]\<close>; for \<open>start > stop\<close> the range is empty and the result is 0.
\<close>

theorem count_range:
  assumes "stop < sieve_size s"
  shows "count s start stop = Inr (popcount_range s start stop)"
  using count_card [OF assms, of start]
  by (simp only: popcount_range_def card_range_filter)

theorem count_range_witness:
  "(70::nat) < sieve_size (BitSieve_new 200) \<and>
   count (BitSieve_new 200) 3 70 = Inr (popcount_range (BitSieve_new 200) 3 70)"
  using count_range [of 70 "BitSieve_new 200" 3]
  by (simp add: BitSieve_new_def)

lemma pat5_all: "list_all (\<lambda>j. bit (0x5555555555555555 :: 64 word) j = even j) [0..<64]"
  by code_simp

lemma patA_all: "list_all (\<lambda>j. bit (0xAAAAAAAAAAAAAAAA :: 64 word) j = odd j) [0..<64]"
  by code_simp

lemma pat5: "j < 64 \<Longrightarrow> bit (0x5555555555555555 :: 64 word) j = even j"
  using pat5_all by (simp add: list_all_iff)

lemma patA: "j < 64 \<Longrightarrow> bit (0xAAAAAAAAAAAAAAAA :: 64 word) j = odd j"
  using patA_all by (simp add: list_all_iff)

lemma first0_all:
  "list_all (\<lambda>j. bit (((0xAAAAAAAAAAAAAAAA :: 64 word) AND NOT (push_bit 2 1 - 1)) OR push_bit 2 1) j
       = (j = 2 \<or> odd j \<and> j \<noteq> 1)) [0..<64]"
  by code_simp

lemma first1_all:
  "list_all (\<lambda>j. bit (((0x5555555555555555 :: 64 word) AND NOT (push_bit 1 1 - 1)) OR push_bit 1 1) j
       = (Suc j = 2 \<or> odd (Suc j) \<and> Suc j \<noteq> 1)) [0..<64]"
  by code_simp

lemma first2_all:
  "list_all (\<lambda>j. bit (((0xAAAAAAAAAAAAAAAA :: 64 word) AND NOT (push_bit 0 1 - 1)) OR push_bit 0 1) j
       = (j = 0 \<or> odd j)) [0..<64]"
  by code_simp

lemma odd_unat: "odd (unat (low :: 64 word)) \<longleftrightarrow> odd low"
  by (metis even_of_nat mult.right_neutral unsigned_1 word_arith_nat_mult)

lemma low_and_1: "(low :: 64 word) AND 1 \<noteq> 0 \<longleftrightarrow> odd (unat low)"
proof -
  have "low AND 1 \<noteq> 0 \<longleftrightarrow> odd low"
    by (simp add: and_one_eq even_iff_mod_2_eq_zero)
  then show ?thesis by (simp only: odd_unat)
qed

lemma low_le_2: "(low :: 64 word) \<le> 2 \<Longrightarrow> low = 0 \<or> low = 1 \<or> low = 2"
  by (metis (no_types, lifting) eq_iff_diff_eq_0 le_plus' nle_le one_add_one
    word_le_sub1 word_zero_le)

lemma gt2: "\<not> (low :: 64 word) \<le> 2 \<Longrightarrow> 2 < unat low"
  by (simp add: word_le_nat_alt)

lemma even_mod64: "even (i mod 64) = even (i::nat)"
  by presburger

lemma pat5_mod: "bit (0x5555555555555555 :: 64 word) (i mod 64) = even i"
  using pat5 [of "i mod 64"] by (simp add: even_mod64)

lemma patA_mod: "bit (0xAAAAAAAAAAAAAAAA :: 64 word) (i mod 64) = odd i"
  using patA [of "i mod 64"] by (simp add: even_mod64)

lemma test_first:
  "i < 64 \<Longrightarrow> test (s\<lparr>bits := w # ws\<rparr>) i = bit w i"
  by (simp add: test_alt)

lemma test_rest:
  "64 \<le> i \<Longrightarrow> i < 64 * Suc n \<Longrightarrow> test (s\<lparr>bits := w # replicate n p\<rparr>) i = bit p (i mod 64)"
proof -
  assume a: "64 \<le> i" "i < 64 * Suc n"
  then have "0 < i div 64" "i div 64 - 1 < n" by (simp_all add: div_greater_zero_iff less_mult_imp_div_less)
  then show ?thesis by (simp add: test_alt nth_Cons')
qed

lemma test_replicate:
  "i < 64 * n \<Longrightarrow> test (s\<lparr>bits := replicate n p\<rparr>) i = bit p (i mod 64)"
  by (simp add: test_alt less_mult_imp_div_less)

text \<open>
  Claim C5, as amended. For every \<open>low\<close> and every BitSieve, after \<^verbatim>\<open>memset(low)\<close> the
  bit at position \<open>i\<close> of the sieve's words is set if and only if \<open>low + i\<close> is odd and
  not 1, or \<open>low + i = 2\<close>: the correction \<^verbatim>\<open>if (low <= 2)\<close> clears the bit of the
  number 1 and sets the bit of the number 2 for \<open>low = 0\<close>, \<open>low = 1\<close> and \<open>low = 2\<close>
  alike.
\<close>

theorem memset_bit_spec:
  assumes "i < 64 * length (bits s)"
  shows "memset_bit s low i =
           Some (unat low + i = 2 \<or> (odd (unat low + i) \<and> unat low + i \<noteq> 1))"
proof -
  obtain n where n: "length (bits s) = Suc n"
    using assms by (cases "length (bits s)") auto
  have rep: "replicate (length (bits s)) p = p # replicate n p" for p :: "64 word"
    by (simp add: n)
  have i: "i < 64 * Suc n" using assms n by simp
  have m64: "i mod 64 < 64" by simp
  show ?thesis
  proof (cases "low \<le> 2")
    case False
    then have g: "2 < unat low" by (rule gt2)
    show ?thesis
    proof (cases "odd (unat low)")
      case True
      then have ms: "memset s low = Inr (s\<lparr>bits := replicate (length (bits s)) 0x5555555555555555\<rparr>)"
        using False by (simp add: memset_def low_and_1)
      have t: "test (s\<lparr>bits := replicate (length (bits s)) 0x5555555555555555\<rparr>) i = even i"
        by (simp only: test_replicate [OF assms] pat5_mod)
      show ?thesis using True g
        by (simp only: memset_bit_def ms sum.case t) auto
    next
      case False
      then have ms: "memset s low = Inr (s\<lparr>bits := replicate (length (bits s)) 0xAAAAAAAAAAAAAAAA\<rparr>)"
        using \<open>\<not> low \<le> 2\<close> by (simp add: memset_def low_and_1)
      have t: "test (s\<lparr>bits := replicate (length (bits s)) 0xAAAAAAAAAAAAAAAA\<rparr>) i = odd i"
        by (simp only: test_replicate [OF assms] patA_mod)
      show ?thesis using False g
        by (simp only: memset_bit_def ms sum.case t) auto
    qed
  next
    case True
    then consider "low = 0" | "low = 1" | "low = 2" using low_le_2 by blast
    then show ?thesis
    proof cases
      case 1
      define F :: "64 word" where "F = ((0xAAAAAAAAAAAAAAAA AND NOT (push_bit 2 1 - 1)) OR push_bit 2 1)"
      have ms: "memset s low = Inr (s\<lparr>bits := F # replicate n 0xAAAAAAAAAAAAAAAA\<rparr>)"
        unfolding memset_def Let_def rep F_def using 1 by simp
      have t: "test (s\<lparr>bits := F # replicate n 0xAAAAAAAAAAAAAAAA\<rparr>) i = (i = 2 \<or> odd i \<and> i \<noteq> 1)"
      proof (cases "i < 64")
        case True
        have "bit F i = (i = 2 \<or> odd i \<and> i \<noteq> 1)"
          unfolding F_def using first0_all True by (simp add: list_all_iff)
        then show ?thesis by (simp only: test_first [OF True])
      next
        case False
        then have ge: "64 \<le> i" by simp
        have "test (s\<lparr>bits := F # replicate n 0xAAAAAAAAAAAAAAAA\<rparr>) i = odd i"
          by (simp only: test_rest [OF ge i] patA_mod)
        then show ?thesis using ge by auto
      qed
      have u: "unat low = 0" using 1 by simp
      show ?thesis
        by (simp only: memset_bit_def ms sum.case t u) simp
    next
      case 2
      define F :: "64 word" where "F = ((0x5555555555555555 AND NOT (push_bit 1 1 - 1)) OR push_bit 1 1)"
      have ms: "memset s low = Inr (s\<lparr>bits := F # replicate n 0x5555555555555555\<rparr>)"
        unfolding memset_def Let_def rep F_def using 2 by simp
      have t: "test (s\<lparr>bits := F # replicate n 0x5555555555555555\<rparr>) i = (Suc i = 2 \<or> odd (Suc i) \<and> Suc i \<noteq> 1)"
      proof (cases "i < 64")
        case True
        have "bit F i = (Suc i = 2 \<or> odd (Suc i) \<and> Suc i \<noteq> 1)"
          unfolding F_def using first1_all True by (simp add: list_all_iff)
        then show ?thesis by (simp only: test_first [OF True])
      next
        case False
        then have ge: "64 \<le> i" by simp
        have "test (s\<lparr>bits := F # replicate n 0x5555555555555555\<rparr>) i = even i"
          by (simp only: test_rest [OF ge i] pat5_mod)
        then show ?thesis using ge by auto
      qed
      have u: "unat low = 1" using 2 by simp
      show ?thesis
        by (simp only: memset_bit_def ms sum.case t u) simp
    next
      case 3
      define F :: "64 word" where "F = ((0xAAAAAAAAAAAAAAAA AND NOT (push_bit 0 1 - 1)) OR push_bit 0 1)"
      have ms: "memset s low = Inr (s\<lparr>bits := F # replicate n 0xAAAAAAAAAAAAAAAA\<rparr>)"
        unfolding memset_def Let_def rep F_def using 3 by simp
      have t: "test (s\<lparr>bits := F # replicate n 0xAAAAAAAAAAAAAAAA\<rparr>) i = (i = 0 \<or> odd i)"
      proof (cases "i < 64")
        case True
        have "bit F i = (i = 0 \<or> odd i)"
          unfolding F_def using first2_all True by (simp add: list_all_iff)
        then show ?thesis by (simp only: test_first [OF True])
      next
        case False
        then have ge: "64 \<le> i" by simp
        have "test (s\<lparr>bits := F # replicate n 0xAAAAAAAAAAAAAAAA\<rparr>) i = odd i"
          by (simp only: test_rest [OF ge i] patA_mod)
        then show ?thesis using ge by auto
      qed
      have u: "unat low = 2" using 3 by simp
      show ?thesis
        by (simp only: memset_bit_def ms sum.case t u) simp
    qed
  qed
qed

theorem memset_bit_spec_witness:
  "(3::nat) < 64 * length (bits (BitSieve_new 70)) \<and> memset_bit (BitSieve_new 70) 1 3 = Some False"
  using memset_bit_spec [of 3 "BitSieve_new 70" 1]
  by (simp add: BitSieve_new_def ceil_div_def)

text \<open>
  Claim C5 as stated fails at \<open>low = 1\<close>: position 0 stands for the odd number 1 and its
  bit is clear after \<^verbatim>\<open>memset(1)\<close>.
\<close>

theorem memset_parity_counterexample:
  "memset_bit (BitSieve_new 64) 1 0 \<noteq> Some (odd (unat (1 :: 64 word) + 0))"
  by (simp add: memset_bit_def memset_def BitSieve_new_def ceil_div_def test_def)

section \<open>Counter tree: the rank invariant\<close>

lemma unset_update_shape:
  "length (bits (fst (unset_update pos sc))) = length (bits (fst sc)) \<and>
   sieve_size (fst (unset_update pos sc)) = sieve_size (fst sc)"
  by (simp add: unset_update_def unset_def)

lemma unset_tab_nth: "n < 64 \<Longrightarrow> unset_bit_tab ! n = NOT (push_bit n 1)"
  by (simp add: unset_bit_tab_def)

lemma bit_and_not_one:
  "m < 64 \<Longrightarrow> bit ((w :: 64 word) AND NOT (push_bit n 1)) m \<longleftrightarrow> bit w m \<and> m \<noteq> n"
  by (auto simp add: bit_simps)

lemma bit_and_not_pow:
  "m < 64 \<Longrightarrow> bit ((w :: 64 word) AND NOT (2 ^ n)) m \<longleftrightarrow> bit w m \<and> m \<noteq> n"
  by (auto simp add: bit_simps)

lemma test_unset:
  assumes "pos < 64 * length (bits s)"
  shows "test (unset s pos) j \<longleftrightarrow> test s j \<and> j \<noteq> pos"
proof (cases "j div 64 = pos div 64")
  case True
  have "pos div 64 < length (bits s)" using assms by (simp add: less_mult_imp_div_less)
  then have "bits (unset s pos) ! (j div 64) = bits s ! (pos div 64) AND NOT (push_bit (pos mod 64) 1)"
    using True by (simp add: unset_def and63 drop6 unset_tab_nth)
  moreover have "j mod 64 \<noteq> pos mod 64 \<longleftrightarrow> j \<noteq> pos"
    using True by (metis div_mult_mod_eq)
  ultimately show ?thesis
    using True by (simp add: test_alt bit_and_not_pow)
next
  case False
  then have "bits (unset s pos) ! (j div 64) = bits s ! (j div 64)"
    by (simp add: unset_def and63 drop6)
  moreover have "j \<noteq> pos" using False by auto
  ultimately show ?thesis by (simp add: test_alt)
qed

lemma sieve_size_unset: "sieve_size (unset s pos) = sieve_size s"
  by (simp add: unset_def)

lemma length_bits_unset: "length (bits (unset s pos)) = length (bits s)"
  by (simp add: unset_def)

lemma filter_unset_count:
  assumes "pos < 64 * length (bits s)" "test s pos"
  shows "int (length (filter (test (unset s pos)) [a..<b])) =
         int (length (filter (test s) [a..<b])) - (if a \<le> pos \<and> pos < b then 1 else 0)"
proof (cases "a \<le> pos \<and> pos < b")
  case True
  then have split: "[a..<b] = [a..<pos] @ pos # [Suc pos..<b]"
    by (metis le_add_diff_inverse less_imp_le_nat upt_add_eq_append upt_conv_Cons)
  have 1: "filter (test (unset s pos)) [a..<pos] = filter (test s) [a..<pos]"
    by (rule filter_cong) (auto simp add: test_unset [OF assms(1)])
  have 2: "filter (test (unset s pos)) [Suc pos..<b] = filter (test s) [Suc pos..<b]"
    by (rule filter_cong) (auto simp add: test_unset [OF assms(1)])
  show ?thesis
    using True assms(2) by (simp add: split 1 2 test_unset [OF assms(1)])
next
  case False
  have "filter (test (unset s pos)) [a..<b] = filter (test s) [a..<b]"
    using False by (intro filter_cong) (auto simp add: test_unset [OF assms(1)])
  then show ?thesis using False by simp
qed


lemma block_index:
  assumes "0 < (w::nat)"
  shows "(j * w \<le> pos \<and> pos < Suc j * w) \<longleftrightarrow> j = pos div w"
proof
  assume "j * w \<le> pos \<and> pos < Suc j * w"
  then show "j = pos div w"
    using assms by (metis div_nat_eqI mult.commute)
next
  assume "j = pos div w"
  then show "j * w \<le> pos \<and> pos < Suc j * w"
    using assms by (metis div_nat_eqI mult.commute dividend_less_times_div div_times_less_eq_dividend mult_Suc add.commute mult_Suc_right)
qed

lemma block_count_less:
  assumes "0 < (w::nat)" "pos < S"
  shows "pos div w < ceil_div S w"
proof -
  have "pos + w \<le> S + w - 1" using assms by simp
  then have "(pos + w) div w \<le> (S + w - 1) div w" by (rule div_le_mono)
  moreover have "(pos + w) div w = Suc (pos div w)" using assms by simp
  ultimately show ?thesis by (simp add: ceil_div_def)
qed

lemma cnt_update_finit:
  assumes w: "0 < w" and pos: "pos < S" and len: "S \<le> 64 * length (bits s)" and set: "test s pos"
  shows "cnt_update (cnt_finit s w S) pos S' = cnt_finit (unset s pos) w S"
proof -
  let ?f = "\<lambda>s j. int (length (filter (test s) [j * w..<min (Suc j * w) S]))"
  let ?n = "ceil_div S w"
  have p64: "pos < 64 * length (bits s)" using pos len by simp
  have k: "pos div w < ?n" using w pos by (rule block_count_less)
  have in_block: "(j * w \<le> pos \<and> pos < min (Suc j * w) S) \<longleftrightarrow> j = pos div w" for j
    using block_index [OF w, of j pos] pos by auto
  have "(map (?f s) [0..<?n])[pos div w := map (?f s) [0..<?n] ! (pos div w) - 1]
        = map (?f (unset s pos)) [0..<?n]"
  proof (rule nth_equalityI)
    show "length ((map (?f s) [0..<?n])[pos div w := map (?f s) [0..<?n] ! (pos div w) - 1])
        = length (map (?f (unset s pos)) [0..<?n])" by simp
  next
    fix j
    assume "j < length ((map (?f s) [0..<?n])[pos div w := map (?f s) [0..<?n] ! (pos div w) - 1])"
    then have j: "j < ?n" by simp
    have new: "?f (unset s pos) j = ?f s j - (if j = pos div w then 1 else 0)"
      using filter_unset_count [OF p64 set, of "j * w" "min (Suc j * w) S"] in_block [of j]
      by simp
    show "(map (?f s) [0..<?n])[pos div w := map (?f s) [0..<?n] ! (pos div w) - 1] ! j
        = map (?f (unset s pos)) [0..<?n] ! j"
      using j k new by (simp add: nth_list_update)
  qed
  then show ?thesis
    by (simp add: cnt_update_def cnt_finit_def)
qed

lemma unset_update_finit:
  assumes "0 < w" "pos < S" "S \<le> 64 * length (bits s)"
  shows "unset_update pos (s, cnt_finit s w S) =
           (fst (unset_update pos (s, cnt_finit s w S)),
            cnt_finit (fst (unset_update pos (s, cnt_finit s w S))) w S)"
  using assms by (simp add: unset_update_def cnt_update_finit)


lemma fold_unset_update_finit:
  assumes "0 < w" "\<forall>p\<in>set ps. p < S" "S \<le> 64 * length (bits s)"
  shows "\<exists>s'. fold unset_update ps (s, cnt_finit s w S) = (s', cnt_finit s' w S)
            \<and> length (bits s') = length (bits s) \<and> sieve_size s' = sieve_size s"
  using assms(2,3)
proof (induction ps arbitrary: s)
  case Nil
  then show ?case by simp
next
  case (Cons p ps)
  let ?s1 = "fst (unset_update p (s, cnt_finit s w S))"
  have p: "p < S" using Cons.prems(1) by simp
  have step: "unset_update p (s, cnt_finit s w S) = (?s1, cnt_finit ?s1 w S)"
    using unset_update_finit [OF assms(1) p Cons.prems(2)] .
  have shape: "length (bits ?s1) = length (bits s)" "sieve_size ?s1 = sieve_size s"
    using unset_update_shape [of p "(s, cnt_finit s w S)"] by simp_all
  have "\<exists>s'. fold unset_update ps (?s1, cnt_finit ?s1 w S) = (s', cnt_finit s' w S)
            \<and> length (bits s') = length (bits ?s1) \<and> sieve_size s' = sieve_size ?s1"
    using Cons.prems by (intro Cons.IH) (simp_all add: shape)
  then show ?case
    using step shape by simp
qed

lemma sum_full_blocks:
  "(\<Sum>j\<leftarrow>[0..<k]. int (length (filter P [j * w..<Suc j * w]))) = int (length (filter P [0..<k * w]))"
proof (induction k)
  case 0
  then show ?case by simp
next
  case (Suc k)
  have "[0..<Suc k * w] = [0..<k * w] @ [k * w..<Suc k * w]"
    by (metis le_add2 mult_Suc upt_add_eq_append zero_le add.commute)
  then show ?case using Suc.IH by simp
qed

lemma cnt_query_finit:
  assumes w: "0 < w" and i: "i < S"
  shows "cnt_query s (cnt_finit s w S) i = int (popcount_range s 0 i)"
proof -
  let ?k = "i div w"
  let ?f = "\<lambda>j. int (length (filter (test s) [j * w..<min (Suc j * w) S]))"
  have k: "?k < ceil_div S w" using w i by (rule block_count_less)
  have kw: "?k * w \<le> i" using w by (simp add: div_times_less_eq_dividend)
  have "take ?k (map ?f [0..<ceil_div S w]) = map ?f [0..<?k]"
    using k by (simp add: take_map take_upt)
  also have "\<dots> = map (\<lambda>j. int (length (filter (test s) [j * w..<Suc j * w]))) [0..<?k]"
  proof (rule map_cong [OF refl])
    fix j assume "j \<in> set [0..<?k]"
    then have "Suc j \<le> ?k" by simp
    then have "Suc j * w \<le> ?k * w" by (rule mult_le_mono1)
    with kw i have "Suc j * w < S" by linarith
    then have "min (Suc j * w) S = Suc j * w" by (simp only: min_def) simp
    then show "?f j = int (length (filter (test s) [j * w..<Suc j * w]))" by simp
  qed
  finally have tk: "take ?k (map ?f [0..<ceil_div S w])
      = map (\<lambda>j. int (length (filter (test s) [j * w..<Suc j * w]))) [0..<?k]" .
  have "sum_list (take ?k (blocks (cnt_finit s w S)))
      = (\<Sum>j\<leftarrow>[0..<?k]. int (length (filter (test s) [j * w..<Suc j * w])))"
    by (simp only: cnt_finit_def counters.select_convs tk)
  also have "\<dots> = int (length (filter (test s) [0..<?k * w]))"
    by (rule sum_full_blocks)
  finally have "sum_list (take ?k (blocks (cnt_finit s w S))) = int (length (filter (test s) [0..<?k * w]))" .
  moreover have "[0..<Suc i] = [0..<?k * w] @ [?k * w..<Suc i]"
    using kw by (metis le_Suc_eq le_add_diff_inverse upt_add_eq_append zero_le)
  ultimately show ?thesis
    by (simp add: cnt_query_def popcount_range_def cnt_finit_def mult.commute)
qed

text \<open>
  Claim C3. After \<^verbatim>\<open>cnt_finit\<close> has initialised the counter tree from the bit sieve
  and after any sequence of the guarded pairs \<^verbatim>\<open>sieve.unset(i); cnt_update(i)\<close> that
  \<^verbatim>\<open>cross_off\<close> performs, \<^verbatim>\<open>cnt_query(counters, i)\<close> is the number of 1 bits of the
  sieve at the positions \<open>0..i\<close>, for every position \<open>i\<close> of the segment and every
  block width.
\<close>

theorem counters_rank:
  assumes "0 < w" and "sieve_size s \<le> 64 * length (bits s)"
    and "\<forall>p\<in>set ps. p < sieve_size s" and "i < sieve_size s"
  shows "cnt_query (fst (fold unset_update ps (s, cnt_finit s w (sieve_size s))))
                   (snd (fold unset_update ps (s, cnt_finit s w (sieve_size s)))) i
         = int (popcount_range (fst (fold unset_update ps (s, cnt_finit s w (sieve_size s)))) 0 i)"
proof -
  obtain s' where "fold unset_update ps (s, cnt_finit s w (sieve_size s)) = (s', cnt_finit s' w (sieve_size s))"
    using fold_unset_update_finit [OF assms(1,3,2)] by blast
  then show ?thesis
    using cnt_query_finit [OF assms(1,4), of s'] by simp
qed


theorem counters_rank_witness:
  "(0::nat) < 8 \<and>
   sieve_size \<lparr>bits = [0x5555555555555554], sieve_size = 64\<rparr>
     \<le> 64 * length (bits \<lparr>bits = [0x5555555555555554], sieve_size = 64\<rparr>) \<and>
   list_all (\<lambda>p. p < sieve_size \<lparr>bits = [0x5555555555555554], sieve_size = 64\<rparr>) [2, 8, 2, 9] \<and>
   (20::nat) < sieve_size \<lparr>bits = [0x5555555555555554], sieve_size = 64\<rparr> \<and>
   cnt_query
     (fst (fold unset_update [2, 8, 2, 9]
        (\<lparr>bits = [0x5555555555555554], sieve_size = 64\<rparr>,
         cnt_finit \<lparr>bits = [0x5555555555555554], sieve_size = 64\<rparr> 8
           (sieve_size \<lparr>bits = [0x5555555555555554], sieve_size = 64\<rparr>))))
     (snd (fold unset_update [2, 8, 2, 9]
        (\<lparr>bits = [0x5555555555555554], sieve_size = 64\<rparr>,
         cnt_finit \<lparr>bits = [0x5555555555555554], sieve_size = 64\<rparr> 8
           (sieve_size \<lparr>bits = [0x5555555555555554], sieve_size = 64\<rparr>)))) 20
   = int (popcount_range
       (fst (fold unset_update [2, 8, 2, 9]
          (\<lparr>bits = [0x5555555555555554], sieve_size = 64\<rparr>,
           cnt_finit \<lparr>bits = [0x5555555555555554], sieve_size = 64\<rparr> 8
             (sieve_size \<lparr>bits = [0x5555555555555554], sieve_size = 64\<rparr>)))) 0 20)"
proof -
  have h1: "(0::nat) < 8" by simp
  have h2: "sieve_size \<lparr>bits = [0x5555555555555554], sieve_size = 64\<rparr>
     \<le> 64 * length (bits \<lparr>bits = [0x5555555555555554], sieve_size = 64\<rparr>)" by simp
  have h3: "\<forall>p\<in>set [2, 8, 2, 9]. p < sieve_size \<lparr>bits = [0x5555555555555554], sieve_size = 64\<rparr>"
    by simp
  have h4: "(20::nat) < sieve_size \<lparr>bits = [0x5555555555555554], sieve_size = 64\<rparr>" by simp
  have h3': "list_all (\<lambda>p. p < sieve_size \<lparr>bits = [0x5555555555555554], sieve_size = 64\<rparr>) [2, 8, 2, 9]"
    by simp
  show ?thesis
    by (intro conjI h1 h2 h3' h4 counters_rank [OF h1 h2 h3 h4])
qed
section \<open>The wheel of next multiples and cross-off\<close>

lemma cdiv_pos: "0 \<le> a \<Longrightarrow> 0 < b \<Longrightarrow> cdiv a b = a div b"
  by (simp add: cdiv_def sgn_if)








lemma fold_unset_update_shape:
  "length (bits (fst (fold unset_update ps sc))) = length (bits (fst sc)) \<and>
   sieve_size (fst (fold unset_update ps sc)) = sieve_size (fst sc)"
  by (induction ps arbitrary: sc) (simp_all add: unset_update_shape)








section \<open>The wave loop of S2: adaptation of the segment size and termination\<close>

lemma in_between_ge: "lo \<le> hi \<Longrightarrow> lo \<le> in_between lo x hi"
  by (auto simp add: in_between_def)

lemma in_between_le_max: "in_between lo x hi \<le> max lo x"
  by (auto simp add: in_between_def)

lemma cdiv_ge_1: "0 < b \<Longrightarrow> b \<le> a \<Longrightarrow> 1 \<le> cdiv a b"
proof -
  assume b: "0 < b" and ab: "b \<le> a"
  then have "0 < a div b" by (simp add: pos_imp_zdiv_pos_iff)
  then show ?thesis using b ab by (simp add: cdiv_pos)
qed

lemma wave_segments_ge_1:
  assumes "st_low st < limit" "1 \<le> st_segment_size st"
  shows "1 \<le> wave_segments limit st"
  unfolding wave_segments_def using assms by (intro cdiv_ge_1) simp_all

lemma wave_threads_ge_1:
  assumes "st_low st < limit" "1 \<le> st_segment_size st"
  shows "1 \<le> wave_threads limit st"
  unfolding wave_threads_def using wave_segments_ge_1 [OF assms] by (rule in_between_ge)

lemma wave_spt_ge_1:
  assumes "st_low st < limit" "1 \<le> st_segment_size st"
  shows "1 \<le> wave_segments_per_thread limit st"
proof -
  have "1 \<le> cdiv (wave_segments limit st + wave_threads limit st - 1) (wave_threads limit st)"
    using wave_segments_ge_1 [OF assms] wave_threads_ge_1 [OF assms] by (intro cdiv_ge_1) simp_all
  then show ?thesis unfolding wave_segments_per_thread_def by (rule in_between_ge)
qed

lemma S2_wave_Inr:
  assumes "S2_wave env thr limit sqrt_limit st = Some (Inr st')"
  shows "st_low st' = st_low st
           + wave_segments_per_thread limit st * wave_threads limit st * st_segment_size st"
    and "st_segment_size st' =
           (if sqrt_limit < st_low st' \<and> wtime env (st_wave st) < 10 \<and> st_segment_size st < sqrt_limit
            then 2 * st_segment_size st else st_segment_size st)"
    and "st_segments_per_thread st' =
           (if sqrt_limit < st_low st' \<and> wtime env (st_wave st) < 10 \<and> \<not> st_segment_size st < sqrt_limit
            then 2 * wave_segments_per_thread limit st else wave_segments_per_thread limit st)"
    and "st_threads st' = wave_threads limit st"
    and "st_wave st' = Suc (st_wave st)"
  using assms
  by (auto simp add: S2_wave_def Let_def wave_segments_def wave_threads_def
        wave_segments_per_thread_def split: option.splits sum.splits prod.splits)


lemma S2_init_fields:
  "st_segment_size (S2_init env x y primes t0) =
     max (next_power_of_2 (cdiv (isqrt (cdiv x y + 1)) (max 1 (ilog env x) * validate_threads env t0))) 64"
  "st_segments_per_thread (S2_init env x y primes t0) = 1"
  "st_low (S2_init env x y primes t0) = 1"
  by (simp_all add: S2_init_def Let_def)

lemma wave_advance:
  assumes low: "st_low st < limit" and ss: "64 \<le> st_segment_size st"
    and wave: "S2_wave env thr limit sqrt_limit st = Some (Inr st')"
  shows "st_low st + 64 \<le> st_low st'" and "st_segment_size st \<le> st_segment_size st'"
proof -
  have ss1: "1 \<le> st_segment_size st" using ss by simp
  have "1 * 1 \<le> wave_segments_per_thread limit st * wave_threads limit st"
    using wave_spt_ge_1 [OF low ss1] wave_threads_ge_1 [OF low ss1] by (intro mult_mono) simp_all
  then have "1 * 64 \<le> wave_segments_per_thread limit st * wave_threads limit st * st_segment_size st"
    using ss by (intro mult_mono) simp_all
  then show "st_low st + 64 \<le> st_low st'"
    using S2_wave_Inr(1) [OF wave] by simp
  show "st_segment_size st \<le> st_segment_size st'"
    using S2_wave_Inr(2) [OF wave] ss by simp
qed

lemma S2_after_inv:
  assumes "S2_after env thr limit sqrt_limit n st0 = Some (Inr st)" "64 \<le> st_segment_size st0"
  shows "64 \<le> st_segment_size st"
  using assms
proof (induction n arbitrary: st0)
  case 0
  then show ?case by simp
next
  case (Suc n)
  show ?case
  proof (cases "st_low st0 < limit")
    case False
    with Suc.prems show ?thesis by simp
  next
    case True
    from Suc.prems(1) True obtain st1 where
      w: "S2_wave env thr limit sqrt_limit st0 = Some (Inr st1)"
      and a: "S2_after env thr limit sqrt_limit n st1 = Some (Inr st)"
      by (auto split: option.splits sum.splits)
    have "64 \<le> st_segment_size st1"
      using wave_advance(2) [OF True Suc.prems(2) w] Suc.prems(2) by simp
    with a show ?thesis by (rule Suc.IH)
  qed
qed







lemma in_between_le_self: "lo \<le> x \<Longrightarrow> in_between lo x hi \<le> x"
  by (auto simp add: in_between_def)

text \<open>
  Claim C8, as amended. In the wave loop of \<^verbatim>\<open>S2\<close>, \<open>segment_size\<close> starts at
  \<open>max (next_power_of_2 (sqrt_limit / (logx * threads))) 64\<close> and
  \<open>segments_per_thread\<close> at 1. At the head of every wave \<open>segment_size\<close> is at
  least 64 and \<open>segments_per_thread\<close> is clamped to
  \<open>[1, ceil (segments / threads)]\<close>, which may lower it and never raises it above what
  it was (or 1). After the wave the two are changed only when the new \<open>low\<close> is above
  \<open>sqrt_limit\<close> and the wave took less than 10 seconds: then \<open>segment_size\<close> is doubled
  if it is below \<open>sqrt_limit\<close>, and \<open>segments_per_thread\<close> is doubled otherwise. So
  \<open>segment_size\<close> never decreases, and after a wave that took 10 seconds or more
  \<open>segment_size\<close> is what it was and \<open>segments_per_thread\<close> is its clamped value.
\<close>

theorem S2_wave_policy:
  assumes run: "S2_after env thr limit sqrt_limit n (S2_init env x y primes t0) = Some (Inr st)"
    and low: "st_low st < limit"
    and wave: "S2_wave env thr limit sqrt_limit st = Some (Inr st')"
  shows "st_segment_size (S2_init env x y primes t0) =
           max (next_power_of_2 (cdiv (isqrt (cdiv x y + 1)) (max 1 (ilog env x) * validate_threads env t0))) 64
       \<and> st_segments_per_thread (S2_init env x y primes t0) = 1
       \<and> 64 \<le> st_segment_size st
       \<and> 1 \<le> wave_segments_per_thread limit st
       \<and> wave_segments_per_thread limit st \<le> max 1 (st_segments_per_thread st)
       \<and> st_segment_size st' =
           (if sqrt_limit < st_low st' \<and> wtime env (st_wave st) < 10 \<and> st_segment_size st < sqrt_limit
            then 2 * st_segment_size st else st_segment_size st)
       \<and> st_segments_per_thread st' =
           (if sqrt_limit < st_low st' \<and> wtime env (st_wave st) < 10 \<and> \<not> st_segment_size st < sqrt_limit
            then 2 * wave_segments_per_thread limit st else wave_segments_per_thread limit st)
       \<and> st_segment_size st \<le> st_segment_size st'"
proof -
  have i: "64 \<le> st_segment_size (S2_init env x y primes t0)"
    by (simp add: S2_init_fields)
  have ss: "64 \<le> st_segment_size st"
    using S2_after_inv [OF run i] .
  then have ss1: "1 \<le> st_segment_size st" by simp
  show ?thesis
    using S2_init_fields(1,2) [of env x y primes t0] ss wave_spt_ge_1 [OF low ss1]
      in_between_le_max [of 1 "st_segments_per_thread st"]
      S2_wave_Inr(2,3) [OF wave] wave_advance(2) [OF low ss wave]
    by (simp only: wave_segments_per_thread_def simp_thms)
qed

theorem S2_wave_policy_witness:
  "S2_after example_env (S2_call example_env example_S2_thread 199 1 0 0 [] [] [])
       (cdiv 199 1 + 1) (isqrt (cdiv 199 1 + 1)) 2 (S2_init example_env 199 1 [] 1)
     = Some (Inr \<lparr>st_total = 2, st_low = 193, st_segment_size = 64, st_segments_per_thread = 4,
                    st_threads = 1, st_phi_total = [], st_wave = 2\<rparr>) \<and>
   S2_wave example_env (S2_call example_env example_S2_thread 199 1 0 0 [] [] [])
       (cdiv 199 1 + 1) (isqrt (cdiv 199 1 + 1))
       \<lparr>st_total = 2, st_low = 193, st_segment_size = 64, st_segments_per_thread = 4,
        st_threads = 1, st_phi_total = [], st_wave = 2\<rparr>
     = Some (Inr \<lparr>st_total = 3, st_low = 257, st_segment_size = 64, st_segments_per_thread = 2,
                    st_threads = 1, st_phi_total = [], st_wave = 3\<rparr>) \<and>
   (64::int) \<le> 64 \<and>
   1 \<le> wave_segments_per_thread (cdiv 199 1 + 1)
         \<lparr>st_total = 2, st_low = 193, st_segment_size = 64, st_segments_per_thread = 4,
          st_threads = 1, st_phi_total = [], st_wave = 2\<rparr> \<and>
   wave_segments_per_thread (cdiv 199 1 + 1)
      \<lparr>st_total = 2, st_low = 193, st_segment_size = 64, st_segments_per_thread = 4,
       st_threads = 1, st_phi_total = [], st_wave = 2\<rparr> \<le> max 1 4"
proof -
  let ?thr = "S2_call example_env example_S2_thread 199 1 0 0 [] [] []"
  let ?st = "\<lparr>st_total = 2, st_low = 193, st_segment_size = 64, st_segments_per_thread = 4,
        st_threads = 1, st_phi_total = [], st_wave = 2\<rparr>"
  let ?st' = "\<lparr>st_total = 3, st_low = 257, st_segment_size = 64, st_segments_per_thread = 2,
        st_threads = 1, st_phi_total = [], st_wave = 3\<rparr>"
  have h1: "S2_after example_env ?thr (cdiv 199 1 + 1) (isqrt (cdiv 199 1 + 1)) 2
      (S2_init example_env 199 1 [] 1) = Some (Inr ?st)"
    by code_simp
  have h2: "st_low ?st < cdiv 199 1 + 1"
    by code_simp
  have h3: "S2_wave example_env ?thr (cdiv 199 1 + 1) (isqrt (cdiv 199 1 + 1)) ?st = Some (Inr ?st')"
    by code_simp
  show ?thesis
    using S2_wave_policy [OF h1 h2 h3] h1 h3 by simp
qed

text \<open>
  Claim C8 as stated fails twice. After a wave that took 0 seconds \<open>segment_size\<close> is
  not doubled although it is below \<open>sqrt_limit\<close>, because the new \<open>low\<close> is not above
  \<open>sqrt_limit\<close> (\<open>x = 20000\<close>, \<open>y = 1\<close>: 64 stays 64, \<open>sqrt_limit = 141\<close>,
  \<open>low = 65\<close>). And \<open>segments_per_thread\<close> does decrease: for \<open>x = 199\<close>, \<open>y = 1\<close> it
  is 4 at the head of the third wave and 2 after it, the clamp having lowered it to 1.
\<close>

theorem S2_wave_policy_counterexample:
  "st_segment_size (S2_init example_env 20000 1 [] 1) = 64 \<and>
   isqrt (cdiv 20000 1 + 1) = 141 \<and>
   wtime example_env 0 < 10 \<and>
   S2_wave example_env (S2_call example_env example_S2_thread 20000 1 0 0 [] [] [])
       (cdiv 20000 1 + 1) (isqrt (cdiv 20000 1 + 1)) (S2_init example_env 20000 1 [] 1)
     = Some (Inr \<lparr>st_total = 1, st_low = 65, st_segment_size = 64, st_segments_per_thread = 1,
                    st_threads = 1, st_phi_total = [], st_wave = 1\<rparr>) \<and>
   S2_after example_env (S2_call example_env example_S2_thread 199 1 0 0 [] [] [])
       (cdiv 199 1 + 1) (isqrt (cdiv 199 1 + 1)) 2 (S2_init example_env 199 1 [] 1)
     = Some (Inr \<lparr>st_total = 2, st_low = 193, st_segment_size = 64, st_segments_per_thread = 4,
                    st_threads = 1, st_phi_total = [], st_wave = 2\<rparr>) \<and>
   S2_after example_env (S2_call example_env example_S2_thread 199 1 0 0 [] [] [])
       (cdiv 199 1 + 1) (isqrt (cdiv 199 1 + 1)) 3 (S2_init example_env 199 1 [] 1)
     = Some (Inr \<lparr>st_total = 3, st_low = 257, st_segment_size = 64, st_segments_per_thread = 2,
                    st_threads = 1, st_phi_total = [], st_wave = 3\<rparr>)"
  by code_simp

section \<open>pi\_lmo\_parallel3: inputs below 2\<close>

text \<open>
  Claim C9, as amended. For every input \<open>x < 2\<close>, the negative ones among them,
  \<^verbatim>\<open>pi_lmo_parallel3\<close> returns the result 0; it reports no failure.
\<close>

theorem pi_lmo_parallel3_below_2:
  assumes "x < 2"
  shows "pi_lmo_parallel3 env S2_thread x threads = Some (Inr 0)"
  using assms by (simp add: pi_lmo_parallel3_def)

theorem pi_lmo_parallel3_below_2_witness:
  "(- 5 :: int) < 2 \<and> pi_lmo_parallel3 example_lmo_env example_S2_thread (- 5) 1 = Some (Inr 0)"
  using pi_lmo_parallel3_below_2 [of "- 5" example_lmo_env example_S2_thread 1] by simp

text \<open>
  Claim C9 as stated fails at \<open>x = - 1\<close>: the caller receives the result 0, not a
  failure.
\<close>

theorem pi_lmo_parallel3_negative_counterexample:
  "pi_lmo_parallel3 example_lmo_env example_S2_thread (- 1) 1 = Some (Inr 0)"
  by (simp add: pi_lmo_parallel3_def)


end
